theory Spec2Isabelle
  imports Complex_Main
begin

section \<open>Tensor values\<close>

text \<open>
  The script computes on float32 tensors. Two models of a tensor entry are used.

  The run of the script (the loop, the histories, the files written) is followed on
  entries that are a real number or the value nan: \<open>Some x\<close> is the finite value \<open>x\<close>,
  \<open>None\<close> is nan, and rounding and overflow are not represented. The properties proved
  of the run are about which statements are executed and which values are stored
  where, and do not rest on the arithmetic of the entries. Arithmetic follows torch:
  nan is absorbing, and a division by zero does not raise, it yields a non-finite entry.

  The normalization of lines 90 to 93 and the inverse transform of line 244, whose
  properties are numerical, are modelled again on binary32 values, with rounding,
  infinities and nan, in the section on binary32 arithmetic below; what is proved of
  them is proved there.
\<close>

type_synonym fl = "real option"

fun fadd :: "fl \<Rightarrow> fl \<Rightarrow> fl" where
  "fadd (Some x) (Some y) = Some (x + y)"
| "fadd _ _ = None"

fun fsub :: "fl \<Rightarrow> fl \<Rightarrow> fl" where
  "fsub (Some x) (Some y) = Some (x - y)"
| "fsub _ _ = None"

fun fmul :: "fl \<Rightarrow> fl \<Rightarrow> fl" where
  "fmul (Some x) (Some y) = Some (x * y)"
| "fmul _ _ = None"

text \<open>
  \<open>0 / 0\<close> is nan. A non-zero value over zero is an infinity in IEEE arithmetic; the
  model has a single non-finite value, so that case is \<open>None\<close> as well.
\<close>

fun fdiv :: "fl \<Rightarrow> fl \<Rightarrow> fl" where
  "fdiv (Some x) (Some y) = (if y = 0 then None else Some (x / y))"
| "fdiv _ _ = None"

fun fabs :: "fl \<Rightarrow> fl" where
  "fabs (Some x) = Some \<bar>x\<bar>"
| "fabs None = None"

text \<open>The comparison \<open>a > b\<close> of two scalars: false as soon as one side is nan.\<close>

fun fgt :: "fl \<Rightarrow> fl \<Rightarrow> bool" where
  "fgt (Some x) (Some y) = (y < x)"
| "fgt _ _ = False"

text \<open>The binary step of torch's max reduction, which propagates nan.\<close>

fun fmax :: "fl \<Rightarrow> fl \<Rightarrow> fl" where
  "fmax (Some x) (Some y) = Some (max x y)"
| "fmax _ _ = None"

text \<open>A row of a \<open>(V, 3)\<close> tensor, and a tensor of shape \<open>(3,)\<close>.\<close>

type_synonym vec3 = "fl \<times> fl \<times> fl"

fun vmap :: "(fl \<Rightarrow> fl) \<Rightarrow> vec3 \<Rightarrow> vec3" where
  "vmap f (a, b, c) = (f a, f b, f c)"

fun vmap2 :: "(fl \<Rightarrow> fl \<Rightarrow> fl) \<Rightarrow> vec3 \<Rightarrow> vec3 \<Rightarrow> vec3" where
  "vmap2 f (a, b, c) (x, y, z) = (f a x, f b y, f c z)"

text \<open>The embedding of a finite row.\<close>

fun fin3 :: "real \<times> real \<times> real \<Rightarrow> vec3" where
  "fin3 (x, y, z) = (Some x, Some y, Some z)"

datatype error =
  IOError | RuntimeError | ValueError | NameError | LibraryError nat

definition bindE :: "error + 'a \<Rightarrow> ('a \<Rightarrow> error + 'b) \<Rightarrow> error + 'b" where
  "bindE r f = (case r of Inl e \<Rightarrow> Inl e | Inr x \<Rightarrow> f x)"

section \<open>Tensor operations used by the script\<close>

definition fsum :: "fl list \<Rightarrow> fl" where
  "fsum xs = foldr fadd xs (Some 0)"

text \<open>
  \<open>t.mean(0)\<close> of a \<open>(V, 3)\<close> tensor: the column sums over the number of rows. On an
  empty tensor this is \<open>0 / 0\<close>, nan, and nothing is raised.
\<close>

definition mean0 :: "vec3 list \<Rightarrow> vec3" where
  "mean0 t =
     (let n = Some (real (length t))
      in (fdiv (fsum (map fst t)) n,
          fdiv (fsum (map (fst \<circ> snd) t)) n,
          fdiv (fsum (map (snd \<circ> snd) t)) n))"

text \<open>\<open>t - c\<close>, \<open>t / s\<close>, \<open>t * s\<close>, \<open>t + c\<close> with the right operand broadcast over the rows.\<close>

definition tsub :: "vec3 list \<Rightarrow> vec3 \<Rightarrow> vec3 list" where
  "tsub t c = map (\<lambda>v. vmap2 fsub v c) t"

definition tadd :: "vec3 list \<Rightarrow> vec3 \<Rightarrow> vec3 list" where
  "tadd t c = map (\<lambda>v. vmap2 fadd v c) t"

definition tdiv :: "vec3 list \<Rightarrow> fl \<Rightarrow> vec3 list" where
  "tdiv t s = map (vmap (\<lambda>x. fdiv x s)) t"

definition tmul :: "vec3 list \<Rightarrow> fl \<Rightarrow> vec3 list" where
  "tmul t s = map (vmap (\<lambda>x. fmul x s)) t"

definition tabs :: "vec3 list \<Rightarrow> vec3 list" where
  "tabs t = map (vmap fabs) t"

text \<open>
  \<open>t.max(0)[0]\<close>: the column maxima. torch raises on a reduction over an empty
  dimension.
\<close>

fun max0 :: "vec3 list \<Rightarrow> error + vec3" where
  "max0 [] = Inl RuntimeError"
| "max0 (v # t) = Inr (fold (\<lambda>w m. vmap2 fmax m w) t v)"

text \<open>
  Python's builtin \<open>max\<close> over the three entries of a \<open>(3,)\<close> tensor: it keeps the
  first entry and replaces it by a later one that compares greater.
\<close>

fun py_max :: "vec3 \<Rightarrow> fl" where
  "py_max (a, b, c) =
     (let m = a;
          m = (if fgt b m then b else m);
          m = (if fgt c m then c else m)
      in m)"

text \<open>The expression \<open>max(verts.abs().max(0)[0])\<close> of line 92.\<close>

definition max_abs :: "vec3 list \<Rightarrow> error + fl" where
  "max_abs t = bindE (max0 (tabs t)) (\<lambda>m. Inr (py_max m))"

text \<open>
  Lines 90 to 93: the normalized vertices, with the scale and the center that are
  kept for the export.
\<close>

definition normalize :: "vec3 list \<Rightarrow> error + (vec3 list \<times> fl \<times> vec3)" where
  "normalize verts =
     (let center = mean0 verts;
          verts = tsub verts center
      in bindE (max_abs verts) (\<lambda>scale.
           let verts = tdiv verts scale
           in Inr (verts, scale, center)))"

text \<open>Line 244: \<open>final_verts * scale + center\<close>.\<close>

definition inverse_transform :: "vec3 list \<Rightarrow> fl \<Rightarrow> vec3 \<Rightarrow> vec3 list" where
  "inverse_transform t scale center = tadd (tmul t scale) center"

text \<open>\<open>torch.full((V, 3), c)\<close>.\<close>

definition torch_full :: "nat \<Rightarrow> real \<Rightarrow> vec3 list" where
  "torch_full V c = replicate V (Some c, Some c, Some c)"

section \<open>Meshes\<close>

type_synonym face = "int \<times> int \<times> int"

text \<open>
  Modelled from the spec: the \<open>Meshes\<close> structure of the library is not part of the
  sources at hand. A mesh is its vertex positions and its triangular faces, and the
  script only builds batches of one mesh.
\<close>

record mesh =
  verts_packed :: "vec3 list"
  faces_packed :: "face list"

definition Meshes :: "vec3 list \<Rightarrow> face list \<Rightarrow> mesh" where
  "Meshes v f = \<lparr>verts_packed = v, faces_packed = f\<rparr>"

text \<open>
  Modelled from the spec: \<open>Meshes.offset_verts\<close> is not part of the sources at hand.
  It produces a new mesh instance by adding the offset vector to each corresponding
  vertex; the mesh it is called on is left as it is and the faces are kept. The spec
  is silent on an offset tensor of another shape than the vertices; the library
  raises \<open>ValueError\<close> there, and the script does not get there on its own, since
  the offsets are created with the shape of the vertices.
\<close>

definition offset_verts :: "mesh \<Rightarrow> vec3 list \<Rightarrow> error + mesh" where
  "offset_verts m offs =
     (if length offs \<noteq> length (verts_packed m) then Inl ValueError
      else Inr (m\<lparr>verts_packed := map2 (vmap2 fadd) (verts_packed m) offs\<rparr>))"

text \<open>
  Modelled from the spec: \<open>Meshes.get_mesh_verts_faces\<close> is not part of the sources at
  hand. It gives the vertices and the faces of one mesh of the batch; the batch has
  the single index 0, the one the script asks for, and any other index is an error.
\<close>

definition get_mesh_verts_faces :: "mesh \<Rightarrow> nat \<Rightarrow> error + (vec3 list \<times> face list)" where
  "get_mesh_verts_faces m i =
     (if i = 0 then Inr (verts_packed m, faces_packed m) else Inl ValueError)"

text \<open>The mesh files written by the run, by path.\<close>

type_synonym files = "string \<rightharpoonup> (vec3 list \<times> face list)"

text \<open>
  Modelled from the spec: \<open>save_obj\<close> is not part of the sources at hand. It writes
  the given vertex positions and faces to the mesh file at the given path.
\<close>

definition save_obj :: "files \<Rightarrow> string \<Rightarrow> vec3 list \<Rightarrow> face list \<Rightarrow> files" where
  "save_obj fs path v f = fs(path \<mapsto> (v, f))"

section \<open>The library calls taken as parameters\<close>

text \<open>
  Loading, the sphere, the sampling, the four loss terms and the gradient come from
  the library. Each of them may raise. Sampling is random: its first argument numbers
  the draws of the run. \<open>backward\<close> stands for \<open>loss.backward()\<close>: the gradient of the
  total loss of iteration \<open>i\<close> with respect to the offsets, of the shape of the offsets.
\<close>

record lib =
  load_obj :: "string \<Rightarrow> error + (vec3 list \<times> face list)"
  ico_sphere :: "nat \<Rightarrow> error + mesh"
  sample_points_from_meshes :: "nat \<Rightarrow> mesh \<Rightarrow> nat \<Rightarrow> error + vec3 list"
  chamfer_distance :: "vec3 list \<Rightarrow> vec3 list \<Rightarrow> error + fl"
  mesh_edge_loss :: "mesh \<Rightarrow> error + fl"
  mesh_normal_consistency :: "mesh \<Rightarrow> error + fl"
  mesh_laplacian_smoothing :: "mesh \<Rightarrow> error + fl"
  backward :: "nat \<Rightarrow> mesh \<Rightarrow> mesh \<Rightarrow> vec3 list \<Rightarrow> error + vec3 list"

section \<open>The script\<close>

definition trg_obj :: string where
  "trg_obj = ''./data/doplhin/10014_dolphin_v2_max2011_it2.obj''"

definition final_obj :: string where
  "final_obj = ''./final_model.obj''"

definition Niter :: nat where "Niter = 2000"
definition w_chamfer :: real where "w_chamfer = 1.0"
definition w_edge :: real where "w_edge = 1.0"
definition w_normal :: real where "w_normal = 0.01"
definition w_laplacian :: real where "w_laplacian = 0.1"
definition plot_period :: nat where "plot_period = 250"

datatype plot = PlotTarget | PlotSource | PlotIter nat

text \<open>
  The variables of the script that the loop reads and writes. \<open>new_src_mesh\<close> is
  unbound before the first iteration. \<open>descriptions\<close> are the total losses handed to
  the progress bar, \<open>plots\<close> the calls of \<open>plot_pointcloud\<close>. \<open>deform_verts\<close> is the
  tensor the optimizer holds and updates in place; \<open>momentum_buffer\<close> is the
  optimizer's own state.
\<close>

record state =
  src_mesh :: mesh
  deform_verts :: "vec3 list"
  momentum_buffer :: "vec3 list option"
  new_src_mesh :: "mesh option"
  chamfer_losses :: "fl list"
  laplacian_losses :: "fl list"
  edge_losses :: "fl list"
  normal_losses :: "fl list"
  descriptions :: "fl list"
  plots :: "plot list"

text \<open>Lines 129 to 170: the state before the loop, offsets all zero.\<close>

definition init_state :: "mesh \<Rightarrow> state" where
  "init_state src =
     \<lparr>src_mesh = src,
      deform_verts = torch_full (length (verts_packed src)) 0.0,
      momentum_buffer = None,
      new_src_mesh = None,
      chamfer_losses = [],
      laplacian_losses = [],
      edge_losses = [],
      normal_losses = [],
      descriptions = [],
      plots = [PlotTarget, PlotSource]\<rparr>"

text \<open>Line 198.\<close>

definition total_loss :: "fl \<Rightarrow> fl \<Rightarrow> fl \<Rightarrow> fl \<Rightarrow> fl" where
  "total_loss loss_chamfer loss_edge loss_normal loss_laplacian =
     fadd (fadd (fadd (fmul loss_chamfer (Some w_chamfer)) (fmul loss_edge (Some w_edge)))
                (fmul loss_normal (Some w_normal)))
          (fmul loss_laplacian (Some w_laplacian))"

text \<open>
  \<open>optimizer.step()\<close> of \<open>SGD(lr=1.0, momentum=0.9)\<close> on the gradient \<open>g\<close>: the buffer
  starts as the first gradient, later it is \<open>0.9 * buf + g\<close>; the parameter moves by
  \<open>- 1.0 * buf\<close>, in place.
\<close>

definition sgd_step :: "state \<Rightarrow> vec3 list \<Rightarrow> state" where
  "sgd_step s g =
     (let buf = (case momentum_buffer s of
                   None \<Rightarrow> g
                 | Some b \<Rightarrow> map2 (vmap2 fadd) (map (vmap (\<lambda>x. fmul x (Some 0.9))) b) g)
      in s\<lparr>momentum_buffer := Some buf,
           deform_verts :=
             map2 (vmap2 fadd) (deform_verts s) (map (vmap (\<lambda>x. fmul (Some (- 1.0)) x)) buf)\<rparr>)"

text \<open>Lines 175 to 215: the body of the loop at index \<open>i\<close>.\<close>

definition iteration :: "lib \<Rightarrow> mesh \<Rightarrow> state \<Rightarrow> nat \<Rightarrow> error + state" where
  "iteration L trg_mesh s i =
     bindE (offset_verts (src_mesh s) (deform_verts s)) (\<lambda>new.
     bindE (sample_points_from_meshes L (2 * i) trg_mesh 5000) (\<lambda>sample_trg.
     bindE (sample_points_from_meshes L (2 * i + 1) new 5000) (\<lambda>sample_src.
     bindE (chamfer_distance L sample_trg sample_src) (\<lambda>loss_chamfer.
     bindE (mesh_edge_loss L new) (\<lambda>loss_edge.
     bindE (mesh_normal_consistency L new) (\<lambda>loss_normal.
     bindE (mesh_laplacian_smoothing L new) (\<lambda>loss_laplacian.
       let loss = total_loss loss_chamfer loss_edge loss_normal loss_laplacian;
           s = s\<lparr>new_src_mesh := Some new,
                 descriptions := descriptions s @ [loss],
                 chamfer_losses := chamfer_losses s @ [loss_chamfer],
                 edge_losses := edge_losses s @ [loss_edge],
                 normal_losses := normal_losses s @ [loss_normal],
                 laplacian_losses := laplacian_losses s @ [loss_laplacian]\<rparr>;
           s = (if i mod plot_period = 0 then s\<lparr>plots := plots s @ [PlotIter i]\<rparr> else s)
       in bindE (backward L i trg_mesh (src_mesh s) (deform_verts s)) (\<lambda>g.
            Inr (sgd_step s g)))))))))"

text \<open>\<open>for i in range(n)\<close>: an error raised by the body ends the loop.\<close>

definition for_range :: "nat \<Rightarrow> ('s \<Rightarrow> nat \<Rightarrow> error + 's) \<Rightarrow> 's \<Rightarrow> error + 's" where
  "for_range n body s = foldl (\<lambda>r i. bindE r (\<lambda>s. body s i)) (Inr s) [0..<n]"

text \<open>
  The whole script with \<open>n\<close> iterations, on the files written so far. It gives the
  error that ended the run or the final state, and the files written.
\<close>

definition run :: "nat \<Rightarrow> lib \<Rightarrow> files \<Rightarrow> (error + state) \<times> files" where
  "run n L fs =
     (case load_obj L trg_obj of
        Inl e \<Rightarrow> (Inl e, fs)
      | Inr (verts, faces_idx) \<Rightarrow>
     (case normalize verts of
        Inl e \<Rightarrow> (Inl e, fs)
      | Inr (verts, scale, center) \<Rightarrow>
     (let trg_mesh = Meshes verts faces_idx in
      case ico_sphere L 4 of
        Inl e \<Rightarrow> (Inl e, fs)
      | Inr src \<Rightarrow>
     (case for_range n (iteration L trg_mesh) (init_state src) of
        Inl e \<Rightarrow> (Inl e, fs)
      | Inr s \<Rightarrow>
     (case new_src_mesh s of
        None \<Rightarrow> (Inl NameError, fs)
      | Some m \<Rightarrow>
     (case get_mesh_verts_faces m 0 of
        Inl e \<Rightarrow> (Inl e, fs)
      | Inr (final_verts, final_faces) \<Rightarrow>
     (let final_verts = inverse_transform final_verts scale center
      in (Inr s, save_obj fs final_obj final_verts final_faces))))))))"

definition script :: "lib \<Rightarrow> files \<Rightarrow> (error + state) \<times> files" where
  "script = run Niter"

section \<open>A small instance of the library\<close>

text \<open>
  A target of two vertices, a source mesh of two vertices and one face, constant loss
  terms and a constant gradient: the instance on which the properties below are
  evaluated. \<open>example_state1\<close> and \<open>example_state2\<close> are its states after one and after
  two iterations. \<open>quiet_lib\<close> is the same instance with a gradient of zero: its state
  after \<open>n\<close> iterations is \<open>quiet_state n\<close>, and its run of the script writes
  \<open>quiet_files\<close>. \<open>quiet_state_b\<close> is the final state when the gradient of the last
  iteration is the one of \<open>example_backward\<close> instead.
\<close>

definition example_src :: mesh where
  "example_src = \<lparr>verts_packed = [fin3 (1, 0, 0), fin3 (0, 1, 0)], faces_packed = [(0, 1, 0)]\<rparr>"

definition example_trg :: mesh where
  "example_trg =
     Meshes [(Some (- (1 / 3)), Some (- (2 / 3)), Some 1), (Some (1 / 3), Some (2 / 3), Some (- 1))]
       [(0, 1, 1)]"

definition example_lib :: lib where
  "example_lib =
     \<lparr>load_obj = (\<lambda>p. if p = trg_obj then Inr ([fin3 (0, 0, 0), fin3 (2, 4, - 6)], [(0, 1, 1)])
                      else Inl IOError),
      ico_sphere = (\<lambda>level. Inr example_src),
      sample_points_from_meshes = (\<lambda>k m n. Inr (verts_packed m)),
      chamfer_distance = (\<lambda>a b. Inr (Some 2)),
      mesh_edge_loss = (\<lambda>m. Inr (Some 1)),
      mesh_normal_consistency = (\<lambda>m. Inr (Some 3)),
      mesh_laplacian_smoothing = (\<lambda>m. Inr (Some 5)),
      backward = (\<lambda>i trg src d. Inr (map (\<lambda>_. fin3 (1, 0, 0)) d))\<rparr>"

definition example_state1 :: state where
  "example_state1 =
     \<lparr>src_mesh = example_src,
      deform_verts = [fin3 (- 1, 0, 0), fin3 (- 1, 0, 0)],
      momentum_buffer = Some [fin3 (1, 0, 0), fin3 (1, 0, 0)],
      new_src_mesh = Some example_src,
      chamfer_losses = [Some 2],
      laplacian_losses = [Some 5],
      edge_losses = [Some 1],
      normal_losses = [Some 3],
      descriptions = [Some (353 / 100)],
      plots = [PlotTarget, PlotSource, PlotIter 0]\<rparr>"

definition example_state2 :: state where
  "example_state2 =
     \<lparr>src_mesh = example_src,
      deform_verts = [fin3 (- (29 / 10), 0, 0), fin3 (- (29 / 10), 0, 0)],
      momentum_buffer = Some [fin3 (19 / 10, 0, 0), fin3 (19 / 10, 0, 0)],
      new_src_mesh =
        Some \<lparr>verts_packed = [fin3 (0, 0, 0), fin3 (- 1, 1, 0)], faces_packed = [(0, 1, 0)]\<rparr>,
      chamfer_losses = [Some 2, Some 2],
      laplacian_losses = [Some 5, Some 5],
      edge_losses = [Some 1, Some 1],
      normal_losses = [Some 3, Some 3],
      descriptions = [Some (353 / 100), Some (353 / 100)],
      plots = [PlotTarget, PlotSource, PlotIter 0]\<rparr>"

definition example_backward :: "mesh \<Rightarrow> mesh \<Rightarrow> vec3 list \<Rightarrow> error + vec3 list" where
  "example_backward trg src d = Inr (map (\<lambda>_. fin3 (0, 5, 0)) d)"

definition quiet_lib :: lib where
  "quiet_lib = example_lib\<lparr>backward := \<lambda>i trg src d. Inr (map (\<lambda>_. fin3 (0, 0, 0)) d)\<rparr>"

definition quiet_state :: "nat \<Rightarrow> state" where
  "quiet_state n =
     \<lparr>src_mesh = example_src,
      deform_verts = [fin3 (0, 0, 0), fin3 (0, 0, 0)],
      momentum_buffer = (if n = 0 then None else Some [fin3 (0, 0, 0), fin3 (0, 0, 0)]),
      new_src_mesh = (if n = 0 then None else Some example_src),
      chamfer_losses = replicate n (Some 2),
      laplacian_losses = replicate n (Some 5),
      edge_losses = replicate n (Some 1),
      normal_losses = replicate n (Some 3),
      descriptions = replicate n (Some (353 / 100)),
      plots = [PlotTarget, PlotSource] @
              map PlotIter (filter (\<lambda>i. i mod plot_period = 0) [0..<n])\<rparr>"

definition quiet_files :: files where
  "quiet_files = [final_obj \<mapsto> ([fin3 (4, 2, - 3), fin3 (1, 5, - 3)], [(0, 1, 0)])]"

definition quiet_state_b :: state where
  "quiet_state_b =
     (quiet_state Niter)
       \<lparr>deform_verts := [fin3 (0, - 5, 0), fin3 (0, - 5, 0)],
        momentum_buffer := Some [fin3 (0, 5, 0), fin3 (0, 5, 0)]\<rparr>"

section \<open>Binary32 arithmetic\<close>

text \<open>
  A float32 entry is a finite real number, plus or minus infinity, or nan. The finite
  values are the numbers \<open>m * 2 ^ e / 2 ^ 149\<close> with \<open>m < 2 ^ 24\<close> below \<open>2 ^ 128\<close> and their
  negatives. The result of an operation on finite values is the exact result rounded
  to the nearest such number, ties to the even \<open>m\<close>, with gradual underflow (the
  spacing never goes below \<open>1 / 2 ^ 149\<close>) and overflow to infinity. The sign of a zero
  is not represented: the divisors of lines 90 to 93 are a number of rows and the
  scale, a maximum of absolute values, and neither is a negative zero.

  \<open>expo y\<close> is the binary exponent of the scaled magnitude \<open>y\<close>, \<open>round_even\<close> rounds to
  the nearest integer with ties to even, \<open>mag\<close> and \<open>rv\<close> round a magnitude and a real
  number to the binary32 grid without a bound on the exponent, and \<open>rnd\<close> is the
  rounding with overflow. \<open>is_f32 x\<close> says that \<open>x\<close> is a finite binary32 value.
\<close>

function expo :: "real \<Rightarrow> nat" where
  "expo y = (if 2 ^ 24 \<le> y then Suc (expo (y / 2)) else 0)"
  by pat_completeness auto
termination
proof (relation "measure (\<lambda>y. nat \<lceil>y\<rceil>)")
  show "wf (measure (\<lambda>y. nat \<lceil>y\<rceil>))" by simp
next
  fix y :: real
  assume "2 ^ 24 \<le> y"
  then have "\<lceil>y / 2\<rceil> < \<lceil>y\<rceil>" and "0 < \<lceil>y\<rceil>"
    by (simp_all add: ceiling_less_iff less_ceiling_iff) linarith+
  then show "(y / 2, y) \<in> measure (\<lambda>y. nat \<lceil>y\<rceil>)" by simp
qed

declare expo.simps [simp del]

definition round_even :: "real \<Rightarrow> int" where
  "round_even t =
     (let f = \<lfloor>t\<rfloor>; d = t - of_int f
      in if d < 1 / 2 then f else if 1 / 2 < d then f + 1 else if even f then f else f + 1)"

definition mag :: "real \<Rightarrow> real" where
  "mag a =
     (let y = a * 2 ^ 149; e = expo y
      in of_int (round_even (y / 2 ^ e)) * 2 ^ e / 2 ^ 149)"

definition rv :: "real \<Rightarrow> real" where
  "rv x = (if x < 0 then - mag (- x) else mag x)"

datatype f32 = Fin real | PInf | NInf | NaN

definition rnd :: "real \<Rightarrow> f32" where
  "rnd x = (let r = rv x in if 2 ^ 128 \<le> \<bar>r\<bar> then (if 0 < x then PInf else NInf) else Fin r)"

definition is_f32 :: "real \<Rightarrow> bool" where
  "is_f32 x \<longleftrightarrow> rv x = x \<and> \<bar>x\<bar> < 2 ^ 128"

text \<open>
  The four operations, negation, absolute value, the comparison \<open>a > b\<close> (false as soon
  as one side is nan) and the binary step of torch's max reduction, which propagates
  nan. \<open>x / 0\<close> is nan for \<open>x = 0\<close> and an infinity of the sign of \<open>x\<close> otherwise; nothing
  is raised.
\<close>

fun fadd32 :: "f32 \<Rightarrow> f32 \<Rightarrow> f32" where
  "fadd32 (Fin x) (Fin y) = rnd (x + y)"
| "fadd32 NaN _ = NaN"
| "fadd32 _ NaN = NaN"
| "fadd32 PInf NInf = NaN"
| "fadd32 NInf PInf = NaN"
| "fadd32 PInf _ = PInf"
| "fadd32 _ PInf = PInf"
| "fadd32 NInf _ = NInf"
| "fadd32 _ NInf = NInf"

fun fneg32 :: "f32 \<Rightarrow> f32" where
  "fneg32 (Fin x) = Fin (- x)"
| "fneg32 PInf = NInf"
| "fneg32 NInf = PInf"
| "fneg32 NaN = NaN"

definition fsub32 :: "f32 \<Rightarrow> f32 \<Rightarrow> f32" where
  "fsub32 a b = fadd32 a (fneg32 b)"

fun fmul32 :: "f32 \<Rightarrow> f32 \<Rightarrow> f32" where
  "fmul32 (Fin x) (Fin y) = rnd (x * y)"
| "fmul32 NaN _ = NaN"
| "fmul32 _ NaN = NaN"
| "fmul32 (Fin x) PInf = (if x = 0 then NaN else if 0 < x then PInf else NInf)"
| "fmul32 (Fin x) NInf = (if x = 0 then NaN else if 0 < x then NInf else PInf)"
| "fmul32 PInf (Fin y) = (if y = 0 then NaN else if 0 < y then PInf else NInf)"
| "fmul32 NInf (Fin y) = (if y = 0 then NaN else if 0 < y then NInf else PInf)"
| "fmul32 PInf PInf = PInf"
| "fmul32 NInf NInf = PInf"
| "fmul32 PInf NInf = NInf"
| "fmul32 NInf PInf = NInf"

fun fdiv32 :: "f32 \<Rightarrow> f32 \<Rightarrow> f32" where
  "fdiv32 (Fin x) (Fin y) =
     (if y = 0 then (if x = 0 then NaN else if 0 < x then PInf else NInf) else rnd (x / y))"
| "fdiv32 NaN _ = NaN"
| "fdiv32 _ NaN = NaN"
| "fdiv32 (Fin x) _ = Fin 0"
| "fdiv32 PInf (Fin y) = (if 0 \<le> y then PInf else NInf)"
| "fdiv32 NInf (Fin y) = (if 0 \<le> y then NInf else PInf)"
| "fdiv32 _ _ = NaN"

fun fabs32 :: "f32 \<Rightarrow> f32" where
  "fabs32 (Fin x) = Fin \<bar>x\<bar>"
| "fabs32 PInf = PInf"
| "fabs32 NInf = PInf"
| "fabs32 NaN = NaN"

fun fgt32 :: "f32 \<Rightarrow> f32 \<Rightarrow> bool" where
  "fgt32 (Fin x) (Fin y) = (y < x)"
| "fgt32 NaN _ = False"
| "fgt32 _ NaN = False"
| "fgt32 PInf PInf = False"
| "fgt32 PInf _ = True"
| "fgt32 _ PInf = False"
| "fgt32 NInf _ = False"
| "fgt32 _ NInf = True"

fun fmax32 :: "f32 \<Rightarrow> f32 \<Rightarrow> f32" where
  "fmax32 NaN _ = NaN"
| "fmax32 _ NaN = NaN"
| "fmax32 a b = (if fgt32 b a then b else a)"

section \<open>The normalization and its inverse in binary32\<close>

text \<open>
  Lines 90 to 93 and line 244 on binary32 tensors of shape \<open>(V, 3)\<close>. \<open>mean32\<close> is
  \<open>verts.mean(0)\<close>: each column is added up from the first row to the last, every
  partial sum rounded, and divided by the number of rows; on an empty tensor it is
  \<open>0 / 0\<close>, nan. The source does not fix the order in which torch adds the rows; the
  theorems on arbitrary vertices below use of the center only that its coordinates
  are binary32 values. \<open>max32\<close> is \<open>max(0)[0]\<close>, which raises on an empty tensor, \<open>py_max32\<close> is
  Python's \<open>max\<close> over the three column maxima, which compares with \<open>>\<close>, and
  \<open>max_abs32\<close> is the expression \<open>max(verts.abs().max(0)[0])\<close> of line 92.
  \<open>normalize32\<close> is lines 90 to 93, returning the normalized vertices with the scale
  and the center that are kept, and \<open>inverse_transform32\<close> is the expression
  \<open>final_verts * scale + center\<close> of line 244. \<open>F3\<close> embeds a row of finite values.
\<close>

type_synonym vec32 = "f32 \<times> f32 \<times> f32"

fun vmap32 :: "(f32 \<Rightarrow> f32) \<Rightarrow> vec32 \<Rightarrow> vec32" where
  "vmap32 f (a, b, c) = (f a, f b, f c)"

fun vmap2_32 :: "(f32 \<Rightarrow> f32 \<Rightarrow> f32) \<Rightarrow> vec32 \<Rightarrow> vec32 \<Rightarrow> vec32" where
  "vmap2_32 f (a, b, c) (x, y, z) = (f a x, f b y, f c z)"

fun F3 :: "real \<times> real \<times> real \<Rightarrow> vec32" where
  "F3 (x, y, z) = (Fin x, Fin y, Fin z)"

definition fsum32 :: "f32 list \<Rightarrow> f32" where
  "fsum32 xs = foldl fadd32 (Fin 0) xs"

definition mean32 :: "vec32 list \<Rightarrow> vec32" where
  "mean32 t =
     (let n = rnd (real (length t))
      in (fdiv32 (fsum32 (map fst t)) n,
          fdiv32 (fsum32 (map (fst \<circ> snd) t)) n,
          fdiv32 (fsum32 (map (snd \<circ> snd) t)) n))"

definition tsub32 :: "vec32 list \<Rightarrow> vec32 \<Rightarrow> vec32 list" where
  "tsub32 t c = map (\<lambda>v. vmap2_32 fsub32 v c) t"

definition tadd32 :: "vec32 list \<Rightarrow> vec32 \<Rightarrow> vec32 list" where
  "tadd32 t c = map (\<lambda>v. vmap2_32 fadd32 v c) t"

definition tdiv32 :: "vec32 list \<Rightarrow> f32 \<Rightarrow> vec32 list" where
  "tdiv32 t s = map (vmap32 (\<lambda>x. fdiv32 x s)) t"

definition tmul32 :: "vec32 list \<Rightarrow> f32 \<Rightarrow> vec32 list" where
  "tmul32 t s = map (vmap32 (\<lambda>x. fmul32 x s)) t"

definition tabs32 :: "vec32 list \<Rightarrow> vec32 list" where
  "tabs32 t = map (vmap32 fabs32) t"

fun max32 :: "vec32 list \<Rightarrow> error + vec32" where
  "max32 [] = Inl RuntimeError"
| "max32 (v # t) = Inr (fold (\<lambda>w m. vmap2_32 fmax32 m w) t v)"

fun py_max32 :: "vec32 \<Rightarrow> f32" where
  "py_max32 (a, b, c) =
     (let m = a;
          m = (if fgt32 b m then b else m);
          m = (if fgt32 c m then c else m)
      in m)"

definition max_abs32 :: "vec32 list \<Rightarrow> error + f32" where
  "max_abs32 t = (case max32 (tabs32 t) of Inl e \<Rightarrow> Inl e | Inr m \<Rightarrow> Inr (py_max32 m))"

definition normalize32 :: "vec32 list \<Rightarrow> error + (vec32 list \<times> f32 \<times> vec32)" where
  "normalize32 verts =
     (let center = mean32 verts;
          verts = tsub32 verts center
      in case max_abs32 verts of
           Inl e \<Rightarrow> Inl e
         | Inr scale \<Rightarrow>
             let verts = tdiv32 verts scale
             in Inr (verts, scale, center))"

definition inverse_transform32 :: "vec32 list \<Rightarrow> f32 \<Rightarrow> vec32 \<Rightarrow> vec32 list" where
  "inverse_transform32 t scale center = tadd32 (tmul32 t scale) center"

text \<open>Absolute values are finite, or plus infinity, or nan: \<open>absval\<close> holds of the first two.\<close>

fun absval :: "f32 \<Rightarrow> bool" where
  "absval (Fin q) = True"
| "absval PInf = True"
| "absval NInf = False"
| "absval NaN = False"

section \<open>Binary32 tensors used as instances\<close>



definition two_verts :: "(real \<times> real \<times> real) list" where
  "two_verts = [(0, - 6, 4), (0, 7, - 3)]"

definition two_normalized :: "(real \<times> real \<times> real) list" where
  "two_normalized = [(0, - 1, 4516943 / 8388608), (0, 1, - (4516943 / 8388608))]"

definition two_restored :: "(real \<times> real \<times> real) list" where
  "two_restored = [(0, - 6, 4), (0, 7, - (12582913 / 4194304))]"

definition huge_verts :: "(real \<times> real \<times> real) list" where
  "huge_verts = [(3 * 2 ^ 126, 0, 0), (3 * 2 ^ 126, 0, 0), (- (3 * 2 ^ 126), 0, 0)]"

definition close_verts :: "(real \<times> real \<times> real) list" where
  "close_verts = replicate 6 (1 + 1 / 2 ^ 22, 1 + 1 / 2 ^ 22, 1 + 1 / 2 ^ 22)"

section \<open>Rounding to binary32\<close>

subsection \<open>The exponent\<close>

lemma expo_lt: "y < 2 ^ 24 \<Longrightarrow> expo y = 0"
  by (simp add: expo.simps)

lemma expo_ge: "2 ^ 24 \<le> y \<Longrightarrow> expo y = Suc (expo (y / 2))"
  by (simp add: expo.simps)

lemma expo_upper: "y / 2 ^ expo y < 2 ^ 24"
proof (induction y rule: expo.induct)
  case (1 y)
  show ?case
  proof (cases "2 ^ 24 \<le> y")
    case True
    with 1 have "y / 2 / 2 ^ expo (y / 2) < 2 ^ 24" by simp
    with True show ?thesis by (simp add: expo_ge)
  next
    case False
    then show ?thesis by (simp add: expo_lt)
  qed
qed

lemma expo_lower: "0 < expo y \<Longrightarrow> 2 ^ 23 \<le> y / 2 ^ expo y"
proof (induction y rule: expo.induct)
  case (1 y)
  show ?case
  proof (cases "2 ^ 24 \<le> y")
    case True
    show ?thesis
    proof (cases "0 < expo (y / 2)")
      case pos: True
      with 1 True have "2 ^ 23 \<le> y / 2 / 2 ^ expo (y / 2)" by simp
      with True show ?thesis by (simp add: expo_ge)
    next
      case False
      then have "expo (y / 2) = 0" by simp
      with True show ?thesis by (simp add: expo_ge)
    qed
  next
    case False
    with 1(2) show ?thesis by (simp add: expo_lt)
  qed
qed

lemma expo_mono: "x \<le> y \<Longrightarrow> expo x \<le> expo y"
proof (induction y arbitrary: x rule: expo.induct)
  case (1 y)
  show ?case
  proof (cases "2 ^ 24 \<le> x")
    case True
    with 1(2) have y: "2 ^ 24 \<le> y" by simp
    from 1(2) have "x / 2 \<le> y / 2" by simp
    with 1(1) y have "expo (x / 2) \<le> expo (y / 2)" by simp
    with True y show ?thesis by (simp add: expo_ge)
  next
    case False
    then show ?thesis by (simp add: expo_lt)
  qed
qed

subsection \<open>Rounding to an integer\<close>

lemma round_even_cases:
  "round_even t = \<lfloor>t\<rfloor> \<and> t - of_int \<lfloor>t\<rfloor> \<le> 1 / 2 \<or>
   round_even t = \<lfloor>t\<rfloor> + 1 \<and> 1 / 2 \<le> t - of_int \<lfloor>t\<rfloor>"
  by (auto simp: round_even_def Let_def)

lemma round_even_error: "\<bar>of_int (round_even t) - t\<bar> \<le> 1 / 2"
  using round_even_cases [of t] by (auto simp: abs_le_iff)

lemma round_even_of_int [simp]: "round_even (of_int k) = k"
  by (simp add: round_even_def)

lemma round_even_0 [simp]: "round_even 0 = 0"
  by (simp add: round_even_def)

lemma round_even_1 [simp]: "round_even 1 = 1"
  by (simp add: round_even_def)

lemma round_even_mono:
  assumes "s \<le> t"
  shows "round_even s \<le> round_even t"
proof (cases "\<lfloor>s\<rfloor> = \<lfloor>t\<rfloor>")
  case True
  with assms have "s - of_int \<lfloor>s\<rfloor> \<le> t - of_int \<lfloor>t\<rfloor>" by simp
  with True show ?thesis by (auto simp: round_even_def Let_def)
next
  case False
  with assms have "\<lfloor>s\<rfloor> < \<lfloor>t\<rfloor>" by (simp add: floor_mono order.strict_iff_order)
  moreover have "round_even s \<le> \<lfloor>s\<rfloor> + 1" using round_even_cases [of s] by auto
  moreover have "\<lfloor>t\<rfloor> \<le> round_even t" using round_even_cases [of t] by auto
  ultimately show ?thesis by linarith
qed

lemma round_even_le: "t \<le> of_int k \<Longrightarrow> round_even t \<le> k"
  using round_even_mono [of t "of_int k"] by simp

lemma round_even_ge: "of_int k \<le> t \<Longrightarrow> k \<le> round_even t"
  using round_even_mono [of "of_int k" t] by simp

subsection \<open>Rounding to the grid\<close>

lemma mag_nonneg: "0 \<le> a \<Longrightarrow> 0 \<le> mag a"
proof -
  assume "0 \<le> a"
  then have "0 \<le> a * 2 ^ 149 / 2 ^ expo (a * 2 ^ 149)" by simp
  then have "0 \<le> round_even (a * 2 ^ 149 / 2 ^ expo (a * 2 ^ 149))"
    using round_even_ge [of 0] by simp
  then show ?thesis by (simp add: mag_def Let_def)
qed

lemma mag_grid: "\<exists>k::int. mag a * 2 ^ 149 = of_int k"
proof -
  have "mag a * 2 ^ 149 =
      of_int (round_even (a * 2 ^ 149 / 2 ^ expo (a * 2 ^ 149)) * 2 ^ expo (a * 2 ^ 149))"
    by (simp add: mag_def Let_def)
  then show ?thesis by blast
qed

lemma mag_error:
  assumes "0 \<le> a"
  shows "\<bar>mag a - a\<bar> \<le> a / 2 ^ 24 \<or> \<bar>mag a - a\<bar> \<le> 1 / 2 ^ 150 \<and> expo (a * 2 ^ 149) = 0"
proof -
  define y where "y = a * 2 ^ 149"
  define e where "e = expo y"
  define t where "t = y / 2 ^ e"
  define u :: real where "u = 2 ^ e / 2 ^ 149"
  have u: "0 < u" by (simp add: u_def)
  have m: "mag a = of_int (round_even t) * u"
    by (simp add: mag_def Let_def y_def e_def t_def u_def)
  have a: "a = t * u"
    by (simp add: t_def y_def u_def)
  have "mag a - a = (of_int (round_even t) - t) * u"
    by (subst m, subst a) (simp add: algebra_simps)
  then have "\<bar>mag a - a\<bar> = \<bar>of_int (round_even t) - t\<bar> * u"
    using u by (simp add: abs_mult)
  also have "\<dots> \<le> (1 / 2) * u"
    using round_even_error [of t] u by (intro mult_right_mono) simp_all
  finally have err: "\<bar>mag a - a\<bar> \<le> (1 / 2) * u" .
  show ?thesis
  proof (cases "e = 0")
    case True
    then have "(1 / 2) * u = 1 / 2 ^ 150" by (simp add: u_def)
    with err have "\<bar>mag a - a\<bar> \<le> 1 / 2 ^ 150" by simp
    with True show ?thesis by (simp add: e_def y_def)
  next
    case False
    then have "2 ^ 23 \<le> y / 2 ^ e" unfolding e_def by (intro expo_lower) simp
    then have "2 ^ 23 \<le> t" by (simp add: t_def)
    then have "2 ^ 23 * u \<le> t * u" using u by (intro mult_right_mono) simp_all
    then have "2 ^ 23 * u \<le> a" using a by simp
    then have "(1 / 2) * u \<le> a / 2 ^ 24" by simp
    with err show ?thesis by linarith
  qed
qed

lemma mag_error_abs:
  assumes "0 \<le> a"
  shows "\<bar>mag a - a\<bar> \<le> a / 2 ^ 24 + 1 / 2 ^ 150"
  using mag_error [OF assms] assms by auto


lemma mag_mono:
  assumes "0 \<le> a" and "a \<le> b"
  shows "mag a \<le> mag b"
proof -
  define x where "x = a * 2 ^ 149"
  define y where "y = b * 2 ^ 149"
  have xy: "x \<le> y" and x0: "0 \<le> x" using assms by (simp_all add: x_def y_def)
  have ma: "mag a * 2 ^ 149 = of_int (round_even (x / 2 ^ expo x)) * 2 ^ expo x"
    and mb: "mag b * 2 ^ 149 = of_int (round_even (y / 2 ^ expo y)) * 2 ^ expo y"
    by (simp_all add: mag_def Let_def x_def y_def)
  have "of_int (round_even (x / 2 ^ expo x)) * 2 ^ expo x \<le>
        (of_int (round_even (y / 2 ^ expo y)) * 2 ^ expo y :: real)"
  proof (cases "expo x = expo y")
    case True
    from xy have "x / 2 ^ expo y \<le> y / 2 ^ expo y" by (simp add: divide_right_mono)
    then have "round_even (x / 2 ^ expo y) \<le> round_even (y / 2 ^ expo y)"
      by (rule round_even_mono)
    then show ?thesis by (simp add: True)
  next
    case False
    with expo_mono [OF xy] have lt: "expo x < expo y" by simp
    then have "0 < expo y" by simp
    then have "2 ^ 23 \<le> y / 2 ^ expo y" by (rule expo_lower)
    then have "(2 ^ 23 :: int) \<le> round_even (y / 2 ^ expo y)"
      using round_even_ge [of "2 ^ 23"] by simp
    then have "(2 ^ 23 :: real) \<le> of_int (round_even (y / 2 ^ expo y))"
      by (metis of_int_le_iff of_int_numeral of_int_power)
    then have lo: "(2 ^ 23 :: real) * 2 ^ expo y \<le> of_int (round_even (y / 2 ^ expo y)) * 2 ^ expo y"
      by (simp add: mult_right_mono)
    have "x / 2 ^ expo x \<le> 2 ^ 24" using expo_upper [of x] by simp
    then have "round_even (x / 2 ^ expo x) \<le> 2 ^ 24"
      using round_even_le [of _ "2 ^ 24"] by simp
    then have "of_int (round_even (x / 2 ^ expo x)) \<le> (2 ^ 24 :: real)"
      by (metis of_int_le_iff of_int_numeral of_int_power)
    then have hi: "of_int (round_even (x / 2 ^ expo x)) * 2 ^ expo x \<le> (2 ^ 24 :: real) * 2 ^ expo x"
      by (simp add: mult_right_mono)
    from lt have "Suc (expo x) \<le> expo y" by simp
    then have "(2 :: real) ^ Suc (expo x) \<le> 2 ^ expo y"
      by (intro power_increasing) simp_all
    then have "(2 ^ 24 :: real) * 2 ^ expo x \<le> 2 ^ 23 * 2 ^ expo y" by simp
    with lo hi show ?thesis by linarith
  qed
  with ma mb have "mag a * 2 ^ 149 \<le> mag b * 2 ^ 149" by simp
  then show ?thesis by simp
qed

lemma rv_neg: "rv (- x) = - rv x"
proof -
  have "mag 0 = 0" by (simp add: mag_def Let_def expo_lt)
  then show ?thesis by (auto simp: rv_def)
qed

lemma rv_abs: "\<bar>rv x\<bar> = mag \<bar>x\<bar>"
  using mag_nonneg [of x] mag_nonneg [of "- x"] by (auto simp: rv_def)

lemma rv_mono:
  assumes "x \<le> y"
  shows "rv x \<le> rv y"
proof -
  consider "0 \<le> x" | "x < 0" "0 \<le> y" | "y < 0" by linarith
  then show ?thesis
  proof cases
    case 1
    with assms show ?thesis by (simp add: rv_def mag_mono)
  next
    case 2
    then have "- mag (- x) \<le> 0" "0 \<le> mag y" using mag_nonneg [of "- x"] mag_nonneg [of y] by simp_all
    with 2 show ?thesis by (simp add: rv_def)
  next
    case 3
    with assms have "mag (- y) \<le> mag (- x)" by (intro mag_mono) simp_all
    with 3 assms show ?thesis by (simp add: rv_def)
  qed
qed

lemma rv_error: "\<bar>rv x - x\<bar> \<le> \<bar>x\<bar> / 2 ^ 24 + 1 / 2 ^ 150"
proof (cases "x < 0")
  case True
  with mag_error_abs [of "- x"] show ?thesis by (simp add: rv_def)
next
  case False
  with mag_error_abs [of x] show ?thesis by (simp add: rv_def)
qed

lemma rv_grid: "\<exists>k::int. rv x * 2 ^ 149 = of_int k"
proof (cases "x < 0")
  case True
  from mag_grid [of "- x"] obtain k :: int where "mag (- x) * 2 ^ 149 = of_int k" by blast
  then have "rv x * 2 ^ 149 = of_int (- k)" using True by (simp add: rv_def)
  then show ?thesis by blast
next
  case False
  with mag_grid [of x] show ?thesis by (simp add: rv_def)
qed


lemma rv_0 [simp]: "rv 0 = 0"
  by (simp add: rv_def mag_def Let_def expo_lt)

lemma rv_smallest: "rv (1 / 2 ^ 149) = 1 / 2 ^ 149"
  by (simp add: rv_def mag_def Let_def expo_lt)

lemma rv_nonzero:
  assumes "x * 2 ^ 149 = of_int k" and "x \<noteq> 0"
  shows "rv x \<noteq> 0"
proof -
  from assms have "k \<noteq> 0" by auto
  then have "1 \<le> \<bar>k\<bar>" by simp
  then have "(1 :: real) \<le> \<bar>of_int k\<bar>" by (metis of_int_1_le_iff of_int_abs)
  with assms(1) have "1 \<le> \<bar>x\<bar> * 2 ^ 149" by (simp add: abs_mult [symmetric])
  then have "1 / 2 ^ 149 \<le> \<bar>x\<bar>" by (simp add: field_simps)
  then have "mag (1 / 2 ^ 149) \<le> mag \<bar>x\<bar>" by (intro mag_mono) simp_all
  moreover have "mag (1 / 2 ^ 149) = 1 / 2 ^ 149"
    using rv_smallest by (simp add: rv_def)
  ultimately have "0 < \<bar>rv x\<bar>" by (simp add: rv_abs)
  then show ?thesis by simp
qed

subsection \<open>Evaluating a rounding\<close>

text \<open>
  A rounding is evaluated from its exponent \<open>e\<close> and its integer \<open>m\<close>, which are checked
  by inequalities between numerals.
\<close>

lemma expo_eqI:
  "y < 2 ^ 24 * 2 ^ e \<Longrightarrow> e = 0 \<or> 2 ^ 23 * 2 ^ e \<le> y \<Longrightarrow> expo y = e"
proof (induction e arbitrary: y)
  case 0
  then show ?case by (simp add: expo_lt)
next
  case (Suc e)
  from Suc.prems(2) have lo: "2 ^ 24 * 2 ^ e \<le> y" by simp
  have "(1 :: real) \<le> 2 ^ e" by simp
  then have "(2 ^ 24 :: real) * 1 \<le> 2 ^ 24 * 2 ^ e" by (intro mult_left_mono) simp_all
  with lo have ge: "2 ^ 24 \<le> y" by linarith
  from Suc.prems(1) have "y / 2 < 2 ^ 24 * 2 ^ e" by simp
  moreover from lo have "e = 0 \<or> 2 ^ 23 * 2 ^ e \<le> y / 2" by simp
  ultimately have "expo (y / 2) = e" by (rule Suc.IH)
  with ge show ?case by (simp add: expo_ge)
qed

lemma round_even_eqI:
  assumes "\<bar>of_int m - t\<bar> < 1 / 2 \<or> \<bar>of_int m - t\<bar> = 1 / 2 \<and> even m"
  shows "round_even t = m"
  using assms
proof
  assume "\<bar>of_int m - t\<bar> < 1 / 2"
  with round_even_error [of t] have "\<bar>(of_int (round_even t) :: real) - of_int m\<bar> < 1" by linarith
  then have "\<bar>round_even t - m\<bar> < 1"
    by (metis of_int_abs of_int_diff of_int_less_1_iff)
  then show ?thesis by simp
next
  assume a: "\<bar>of_int m - t\<bar> = 1 / 2 \<and> even m"
  then consider "t = of_int m + 1 / 2" | "t = of_int m - 1 / 2" by (auto simp: abs_if split: if_splits)
  then show ?thesis
  proof cases
    case 1
    then have "\<lfloor>t\<rfloor> = m" by (simp add: floor_unique)
    with 1 a show ?thesis by (simp add: round_even_def Let_def)
  next
    case 2
    then have f: "\<lfloor>t\<rfloor> = m - 1" by (intro floor_unique) simp_all
    with 2 a show ?thesis by (simp add: round_even_def Let_def)
  qed
qed

lemma rv_eqI:
  assumes "\<bar>x\<bar> * 2 ^ 149 < 2 ^ 24 * 2 ^ e"
    and "e = 0 \<or> 2 ^ 23 * 2 ^ e \<le> \<bar>x\<bar> * 2 ^ 149"
    and "\<bar>of_int m - \<bar>x\<bar> * 2 ^ 149 / 2 ^ e\<bar> < 1 / 2 \<or>
         \<bar>of_int m - \<bar>x\<bar> * 2 ^ 149 / 2 ^ e\<bar> = 1 / 2 \<and> even m"
    and "v = (if x < 0 then - (of_int m * 2 ^ e / 2 ^ 149) else of_int m * 2 ^ e / 2 ^ 149)"
  shows "rv x = v"
proof -
  have e: "expo (\<bar>x\<bar> * 2 ^ 149) = e" using assms(1,2) by (rule expo_eqI)
  have r: "round_even (\<bar>x\<bar> * 2 ^ 149 / 2 ^ e) = m" using assms(3) by (rule round_even_eqI)
  have m: "mag \<bar>x\<bar> = of_int m * 2 ^ e / 2 ^ 149"
    unfolding mag_def Let_def e r ..
  show "rv x = v"
  proof (cases "x < 0")
    case True
    then have ax: "- x = \<bar>x\<bar>" by simp
    from True have "rv x = - mag (- x)" by (simp only: rv_def if_True)
    also have "\<dots> = - (of_int m * 2 ^ e / 2 ^ 149)" by (simp only: ax m)
    also have "\<dots> = v" using True by (simp only: assms(4) if_True)
    finally show ?thesis .
  next
    case False
    then have ax: "x = \<bar>x\<bar>" by simp
    from False have "rv x = mag x" by (simp only: rv_def if_False)
    also have "\<dots> = of_int m * 2 ^ e / 2 ^ 149" by (subst ax) (rule m)
    also have "\<dots> = v" using False by (simp only: assms(4) if_False)
    finally show ?thesis .
  qed
qed

lemma rnd_FinI:
  assumes "\<bar>x\<bar> * 2 ^ 149 < 2 ^ 24 * 2 ^ e"
    and "e = 0 \<or> 2 ^ 23 * 2 ^ e \<le> \<bar>x\<bar> * 2 ^ 149"
    and "\<bar>of_int m - \<bar>x\<bar> * 2 ^ 149 / 2 ^ e\<bar> < 1 / 2 \<or>
         \<bar>of_int m - \<bar>x\<bar> * 2 ^ 149 / 2 ^ e\<bar> = 1 / 2 \<and> even m"
    and "v = (if x < 0 then - (of_int m * 2 ^ e / 2 ^ 149) else of_int m * 2 ^ e / 2 ^ 149)"
    and "\<bar>v\<bar> < 2 ^ 128"
  shows "rnd x = Fin v"
proof -
  have "rv x = v" using assms(1-4) by (rule rv_eqI)
  with assms(5) show ?thesis by (simp add: rnd_def Let_def)
qed

lemma rv_1 [simp]: "rv 1 = 1"
proof -
  have "rnd 1 = Fin 1" by (rule rnd_FinI [where e = 126 and m = 8388608]) simp_all
  then show ?thesis by (simp add: rnd_def Let_def split: if_splits)
qed

lemma rv_le_1: "\<bar>t\<bar> \<le> 1 \<Longrightarrow> \<bar>rv t\<bar> \<le> 1"
  using rv_mono [of t 1] rv_mono [of "- 1" t] by (simp add: rv_neg abs_le_iff)

lemma rnd_not_NaN [simp]: "rnd x \<noteq> NaN"
  by (simp add: rnd_def Let_def)

lemma rnd_Fin_iff: "rnd x = Fin r \<longleftrightarrow> r = rv x \<and> \<bar>rv x\<bar> < 2 ^ 128"
  by (auto simp: rnd_def Let_def)

lemma rnd_finite: "\<bar>rv x\<bar> < 2 ^ 128 \<Longrightarrow> rnd x = Fin (rv x)"
  by (simp add: rnd_Fin_iff)

lemma rnd_cases: "rnd x = Fin (rv x) \<or> rnd x = PInf \<or> rnd x = NInf"
  by (simp add: rnd_def Let_def)

lemma rnd_is_f32: "is_f32 x \<Longrightarrow> rnd x = Fin x"
  by (simp add: is_f32_def rnd_Fin_iff)

lemma is_f32_grid: "is_f32 x \<Longrightarrow> \<exists>k::int. x * 2 ^ 149 = of_int k"
  using rv_grid [of x] by (simp add: is_f32_def)

section \<open>Normalization in binary32\<close>

subsection \<open>Column maxima\<close>

lemma fmax32_Fin [simp]: "fmax32 (Fin x) (Fin y) = Fin (max x y)"
  by (simp add: max_def)


lemma fold_vmax32_cols:
  "fold (\<lambda>w m. vmap2_32 fmax32 m w) t (a, b, c) =
     (fold (\<lambda>x m. fmax32 m x) (map fst t) a,
      fold (\<lambda>x m. fmax32 m x) (map (fst \<circ> snd) t) b,
      fold (\<lambda>x m. fmax32 m x) (map (snd \<circ> snd) t) c)"
proof (induction t arbitrary: a b c)
  case Nil
  show ?case by simp
next
  case (Cons w t)
  obtain x y z where w: "w = (x, y, z)" by (cases w)
  show ?case by (simp add: w Cons.IH)
qed

lemma fmax32_absval:
  assumes "absval a" and "absval x"
  shows "absval (fmax32 a x)"
    and "fmax32 a x = Fin r \<Longrightarrow> \<exists>p q. a = Fin p \<and> x = Fin q \<and> r = max p q"
proof -
  show "absval (fmax32 a x)"
    using assms by (cases a; cases x) simp_all
  show "\<exists>p q. a = Fin p \<and> x = Fin q \<and> r = max p q" if "fmax32 a x = Fin r"
    using assms that by (cases a; cases x) (simp_all split: if_splits)
qed

lemma fold_fmax32_absval:
  assumes "absval a" and "\<forall>x \<in> set xs. absval x"
    and "fold (\<lambda>x m. fmax32 m x) xs a = Fin r"
  shows "\<exists>p ps. a = Fin p \<and> xs = map Fin ps \<and> r = Max (set (p # ps))"
  using assms
proof (induction xs arbitrary: a)
  case Nil
  then show ?case by simp
next
  case (Cons x xs)
  from Cons.prems have ax: "absval (fmax32 a x)" by (simp add: fmax32_absval(1))
  from Cons.prems have "fold (\<lambda>x m. fmax32 m x) xs (fmax32 a x) = Fin r" by simp
  with Cons.IH [OF ax] Cons.prems(2) obtain p' ps where
    m: "fmax32 a x = Fin p'" and xs: "xs = map Fin ps" and r: "r = Max (set (p' # ps))"
    by auto
  from fmax32_absval(2) [OF _ _ m] Cons.prems obtain p q where
    a: "a = Fin p" and x: "x = Fin q" and p': "p' = max p q"
    by auto
  have "Max (set (max p q # ps)) = Max (set (p # q # ps))"
    by (simp add: Max_insert2 max.assoc) (metis List.finite_set Max.insert_not_elem Max_insert
        Max_singleton empty_iff finite.emptyI finite.insertI insert_absorb max.assoc)
  with a x xs r p' have "a = Fin p \<and> x # xs = map Fin (q # ps) \<and> r = Max (set (p # q # ps))"
    by simp
  then show ?case by (intro exI [of _ p] exI [of _ "q # ps"])
qed

lemma py_max32_absval:
  assumes "absval a" "absval b" "absval c" and "py_max32 (a, b, c) = Fin r"
  shows "\<exists>p q w. a = Fin p \<and> b = Fin q \<and> c = Fin w \<and> r = max p (max q w)"
  using assms by (cases a; cases b; cases c) (auto simp: Let_def max_def split: if_splits)

lemma fabs32_rnd_absval [simp]: "absval (fabs32 (rnd x))"
  using rnd_cases [of x] by auto

lemma fold_fmax32_absval_closed:
  "absval a \<Longrightarrow> \<forall>x \<in> set xs. absval x \<Longrightarrow> absval (fold (\<lambda>x m. fmax32 m x) xs a)"
  by (induction xs arbitrary: a) (simp_all add: fmax32_absval(1))

lemma fabs32_rnd_Fin: "fabs32 (rnd x) = Fin q \<Longrightarrow> rnd x = Fin (rv x) \<and> q = \<bar>rv x\<bar>"
  using rnd_cases [of x] by auto

lemma column_max_rnd:
  assumes "fold (\<lambda>x m. fmax32 m x) (map (\<lambda>d. fabs32 (rnd (g d))) ds) (fabs32 (rnd (g d0))) = Fin p"
  shows "(\<forall>d \<in> set (d0 # ds). rnd (g d) = Fin (rv (g d)) \<and> \<bar>rv (g d)\<bar> \<le> p) \<and>
         (\<exists>d \<in> set (d0 # ds). \<bar>rv (g d)\<bar> = p)"
proof -
  have "absval (fabs32 (rnd (g d0)))" and "\<forall>x \<in> set (map (\<lambda>d. fabs32 (rnd (g d))) ds). absval x"
    by simp_all
  from fold_fmax32_absval [OF this assms] obtain p0 ps where
    p0: "fabs32 (rnd (g d0)) = Fin p0" and
    ps: "map (\<lambda>d. fabs32 (rnd (g d))) ds = map Fin ps" and
    p: "p = Max (set (p0 # ps))"
    by blast
  have fin: "finite (set (p0 # ps))" and ne: "set (p0 # ps) \<noteq> {}" by simp_all
  have each: "rnd (g d) = Fin (rv (g d)) \<and> \<bar>rv (g d)\<bar> \<in> set (p0 # ps)" if "d \<in> set (d0 # ds)" for d
  proof (cases "d = d0")
    case True
    with fabs32_rnd_Fin [OF p0] show ?thesis by simp
  next
    case False
    with that have "d \<in> set ds" by simp
    then have "fabs32 (rnd (g d)) \<in> set (map (\<lambda>d. fabs32 (rnd (g d))) ds)" by simp
    then have "fabs32 (rnd (g d)) \<in> set (map Fin ps)" by (simp only: ps)
    then obtain q where q: "fabs32 (rnd (g d)) = Fin q" and qs: "q \<in> set ps" by auto
    from fabs32_rnd_Fin [OF q] qs show ?thesis by auto
  qed
  have bound: "\<forall>d \<in> set (d0 # ds). rnd (g d) = Fin (rv (g d)) \<and> \<bar>rv (g d)\<bar> \<le> p"
  proof
    fix d assume d: "d \<in> set (d0 # ds)"
    from each [OF d] have "\<bar>rv (g d)\<bar> \<le> Max (set (p0 # ps))"
      using fin by (intro Max_ge) simp_all
    with each [OF d] p show "rnd (g d) = Fin (rv (g d)) \<and> \<bar>rv (g d)\<bar> \<le> p" by simp
  qed
  have "p \<in> set (p0 # ps)" unfolding p using fin ne by (rule Max_in)
  then consider "p = p0" | "p \<in> set ps" by auto
  then have att: "\<exists>d \<in> set (d0 # ds). \<bar>rv (g d)\<bar> = p"
  proof cases
    case 1
    with fabs32_rnd_Fin [OF p0] show ?thesis by auto
  next
    case 2
    then have "Fin p \<in> set (map Fin ps)" by simp
    then have "Fin p \<in> set (map (\<lambda>d. fabs32 (rnd (g d))) ds)" by (simp only: ps)
    then obtain d where d: "d \<in> set ds" and e: "fabs32 (rnd (g d)) = Fin p" by auto
    from fabs32_rnd_Fin [OF e] d show ?thesis by auto
  qed
  from bound att show ?thesis by blast
qed

text \<open>
  The maximum absolute entry of a tensor of rounded values: when it is finite, every
  entry is finite and bounded by it, and one entry attains it.
\<close>

lemma max_abs32_rnd:
  assumes "max_abs32 (map (\<lambda>(a, b, c). (rnd a, rnd b, rnd c)) ds) = Inr (Fin s)"
  shows "(\<forall>(a, b, c) \<in> set ds.
            rnd a = Fin (rv a) \<and> rnd b = Fin (rv b) \<and> rnd c = Fin (rv c) \<and>
            \<bar>rv a\<bar> \<le> s \<and> \<bar>rv b\<bar> \<le> s \<and> \<bar>rv c\<bar> \<le> s) \<and>
         (\<exists>(a, b, c) \<in> set ds. \<bar>rv a\<bar> = s \<or> \<bar>rv b\<bar> = s \<or> \<bar>rv c\<bar> = s)"
proof -
  define A where "A = map (\<lambda>(a, b, c). (fabs32 (rnd a), fabs32 (rnd b), fabs32 (rnd c))) ds"
  have tabs: "tabs32 (map (\<lambda>(a, b, c). (rnd a, rnd b, rnd c)) ds) = A"
    by (simp add: tabs32_def A_def split_def)
  from assms obtain d0 ds' where ds: "ds = d0 # ds'"
    by (cases ds) (simp_all add: max_abs32_def tabs32_def)
  define A' where "A' = map (\<lambda>(a, b, c). (fabs32 (rnd a), fabs32 (rnd b), fabs32 (rnd c))) ds'"
  have A: "A = (fabs32 (rnd (fst d0)), fabs32 (rnd ((fst \<circ> snd) d0)), fabs32 (rnd ((snd \<circ> snd) d0))) # A'"
    by (simp add: A_def A'_def ds split_def)
  have cx: "map fst A' = map (\<lambda>d. fabs32 (rnd (fst d))) ds'"
    and cy: "map (fst \<circ> snd) A' = map (\<lambda>d. fabs32 (rnd ((fst \<circ> snd) d))) ds'"
    and cz: "map (snd \<circ> snd) A' = map (\<lambda>d. fabs32 (rnd ((snd \<circ> snd) d))) ds'"
    by (simp_all add: A'_def split_def)
  define mx where "mx = fold (\<lambda>x m. fmax32 m x) (map (\<lambda>d. fabs32 (rnd (fst d))) ds') (fabs32 (rnd (fst d0)))"
  define my where "my = fold (\<lambda>x m. fmax32 m x) (map (\<lambda>d. fabs32 (rnd ((fst \<circ> snd) d))) ds')
      (fabs32 (rnd ((fst \<circ> snd) d0)))"
  define mz where "mz = fold (\<lambda>x m. fmax32 m x) (map (\<lambda>d. fabs32 (rnd ((snd \<circ> snd) d))) ds')
      (fabs32 (rnd ((snd \<circ> snd) d0)))"
  have m0: "max32 A = Inr (mx, my, mz)"
    unfolding A max32.simps fold_vmax32_cols cx cy cz mx_def my_def mz_def ..
  with assms have py: "py_max32 (mx, my, mz) = Fin s"
    by (simp add: max_abs32_def tabs)
  have "absval mx" "absval my" "absval mz"
    unfolding mx_def my_def mz_def by (rule fold_fmax32_absval_closed; simp)+
  from py_max32_absval [OF this py] obtain p q w where
    mx: "mx = Fin p" and my: "my = Fin q" and mz: "mz = Fin w" and s: "s = max p (max q w)"
    by blast
  note X = column_max_rnd [OF mx [unfolded mx_def]]
  note Y = column_max_rnd [OF my [unfolded my_def]]
  note Z = column_max_rnd [OF mz [unfolded mz_def]]
  have bound: "\<forall>(a, b, c) \<in> set ds.
            rnd a = Fin (rv a) \<and> rnd b = Fin (rv b) \<and> rnd c = Fin (rv c) \<and>
            \<bar>rv a\<bar> \<le> s \<and> \<bar>rv b\<bar> \<le> s \<and> \<bar>rv c\<bar> \<le> s"
  proof (clarify, intro conjI)
    fix a b c assume d: "(a, b, c) \<in> set ds"
    then have d': "(a, b, c) \<in> set (d0 # ds')" by (simp add: ds)
    from X d' have x: "rnd a = Fin (rv a) \<and> \<bar>rv a\<bar> \<le> p" by force
    from Y d' have y: "rnd b = Fin (rv b) \<and> \<bar>rv b\<bar> \<le> q" by force
    from Z d' have z: "rnd c = Fin (rv c) \<and> \<bar>rv c\<bar> \<le> w" by force
    from x show "rnd a = Fin (rv a)" by simp
    from y show "rnd b = Fin (rv b)" by simp
    from z show "rnd c = Fin (rv c)" by simp
    from x show "\<bar>rv a\<bar> \<le> s" unfolding s by linarith
    from y show "\<bar>rv b\<bar> \<le> s" unfolding s by linarith
    from z show "\<bar>rv c\<bar> \<le> s" unfolding s by linarith
  qed
  have "s = p \<or> s = q \<or> s = w" unfolding s by (auto simp: max_def)
  then have att: "\<exists>(a, b, c) \<in> set ds. \<bar>rv a\<bar> = s \<or> \<bar>rv b\<bar> = s \<or> \<bar>rv c\<bar> = s"
  proof (elim disjE)
    assume "s = p"
    with X obtain d where "d \<in> set ds" "\<bar>rv (fst d)\<bar> = s" unfolding ds by blast
    then show ?thesis by (intro bexI [of _ d]) (simp_all add: split_def)
  next
    assume "s = q"
    with Y obtain d where "d \<in> set ds" "\<bar>rv ((fst \<circ> snd) d)\<bar> = s" unfolding ds by blast
    then show ?thesis by (intro bexI [of _ d]) (simp_all add: split_def)
  next
    assume "s = w"
    with Z obtain d where "d \<in> set ds" "\<bar>rv ((snd \<circ> snd) d)\<bar> = s" unfolding ds by blast
    then show ?thesis by (intro bexI [of _ d]) (simp_all add: split_def)
  qed
  from bound att show ?thesis by blast
qed

subsection \<open>The stored scale\<close>

lemma fsub32_Fin [simp]: "fsub32 (Fin x) (Fin c) = rnd (x - c)"
  by (simp add: fsub32_def)

lemma tsub32_F3:
  "tsub32 (map F3 ws) (Fin cx, Fin cy, Fin cz) =
     map (\<lambda>(a, b, c). (rnd a, rnd b, rnd c)) (map (\<lambda>(x, y, z). (x - cx, y - cy, z - cz)) ws)"
  by (induction ws) (auto simp: tsub32_def)

lemma normalize32_Nil: "normalize32 [] = Inl RuntimeError"
  by (simp add: normalize32_def max_abs32_def tsub32_def tabs32_def)

lemma tdiv32_F3:
  "s \<noteq> 0 \<Longrightarrow>
   tdiv32 (map F3 cs) (Fin s) = map (\<lambda>(a, b, c). (rnd (a / s), rnd (b / s), rnd (c / s))) cs"
  by (induction cs) (auto simp: tdiv32_def)

lemma tdiv32_zero:
  "tdiv32 (map F3 (map (\<lambda>_. (0, 0, 0)) ws)) (Fin 0) = map (\<lambda>_. (NaN, NaN, NaN)) ws"
  by (induction ws) (auto simp: tdiv32_def)

text \<open>
  What the normalization returns when the stored center and scale are finite: the
  centered entries \<open>rv (x - cx)\<close> are finite and bounded by the scale, one of them
  attains it, and the result is their quotient by the scale.
\<close>

lemma normalize32_finite:
  assumes "normalize32 (map F3 ws) = Inr (nv, Fin s, (Fin cx, Fin cy, Fin cz))"
  shows "ws \<noteq> []"
    and "mean32 (map F3 ws) = (Fin cx, Fin cy, Fin cz)"
    and "\<forall>(x, y, z) \<in> set ws.
           \<bar>rv (x - cx)\<bar> \<le> s \<and> \<bar>rv (y - cy)\<bar> \<le> s \<and> \<bar>rv (z - cz)\<bar> \<le> s"
    and "\<exists>(x, y, z) \<in> set ws.
           \<bar>rv (x - cx)\<bar> = s \<or> \<bar>rv (y - cy)\<bar> = s \<or> \<bar>rv (z - cz)\<bar> = s"
    and "nv = tdiv32 (map F3 (map (\<lambda>(x, y, z). (rv (x - cx), rv (y - cy), rv (z - cz))) ws)) (Fin s)"
proof -
  show ne: "ws \<noteq> []" using assms normalize32_Nil by auto
  define ds where "ds = map (\<lambda>(x, y, z). (x - cx, y - cy, z - cz)) ws"
  define C where "C = map (\<lambda>(a, b, c). (rnd a, rnd b, rnd c)) ds"
  from assms have m: "mean32 (map F3 ws) = (Fin cx, Fin cy, Fin cz)"
    by (auto simp: normalize32_def Let_def split: sum.splits)
  then show "mean32 (map F3 ws) = (Fin cx, Fin cy, Fin cz)" .
  have sub: "tsub32 (map F3 ws) (mean32 (map F3 ws)) = C"
    by (simp only: m tsub32_F3 C_def ds_def)
  from assms have ma: "max_abs32 C = Inr (Fin s)" and nv: "nv = tdiv32 C (Fin s)"
    by (auto simp: normalize32_def Let_def sub split: sum.splits)
  from max_abs32_rnd [OF ma [unfolded C_def]]
  have b: "\<forall>(a, b, c) \<in> set ds.
            rnd a = Fin (rv a) \<and> rnd b = Fin (rv b) \<and> rnd c = Fin (rv c) \<and>
            \<bar>rv a\<bar> \<le> s \<and> \<bar>rv b\<bar> \<le> s \<and> \<bar>rv c\<bar> \<le> s"
    and a: "\<exists>(a, b, c) \<in> set ds. \<bar>rv a\<bar> = s \<or> \<bar>rv b\<bar> = s \<or> \<bar>rv c\<bar> = s"
    by blast+
  from b show "\<forall>(x, y, z) \<in> set ws.
           \<bar>rv (x - cx)\<bar> \<le> s \<and> \<bar>rv (y - cy)\<bar> \<le> s \<and> \<bar>rv (z - cz)\<bar> \<le> s"
    by (force simp: ds_def)
  from a show "\<exists>(x, y, z) \<in> set ws.
           \<bar>rv (x - cx)\<bar> = s \<or> \<bar>rv (y - cy)\<bar> = s \<or> \<bar>rv (z - cz)\<bar> = s"
    by (force simp: ds_def)
  have "C = map F3 (map (\<lambda>(a, b, c). (rv a, rv b, rv c)) ds)"
    unfolding C_def using b by (induction ds) auto
  also have "map (\<lambda>(a, b, c). (rv a, rv b, rv c)) ds =
      map (\<lambda>(x, y, z). (rv (x - cx), rv (y - cy), rv (z - cz))) ws"
    by (simp add: ds_def split_def comp_def)
  finally show "nv = tdiv32 (map F3 (map (\<lambda>(x, y, z). (rv (x - cx), rv (y - cy), rv (z - cz))) ws)) (Fin s)"
    using nv by simp
qed

lemma rnd_quotient:
  fixes s :: real
  assumes "0 < s" and "\<bar>c\<bar> \<le> s"
  shows "rnd (c / s) = Fin (rv (c / s))" and "\<bar>rv (c / s)\<bar> \<le> 1"
proof -
  from assms have "\<bar>c / s\<bar> \<le> 1" by simp
  then show le: "\<bar>rv (c / s)\<bar> \<le> 1" by (rule rv_le_1)
  have "(1 :: real) < 2 ^ 128" by simp
  with le have "\<bar>rv (c / s)\<bar> < 2 ^ 128" by linarith
  then show "rnd (c / s) = Fin (rv (c / s))" by (rule rnd_finite)
qed

lemma normalize32_positive:
  assumes n: "normalize32 (map F3 ws) = Inr (nv, Fin s, (Fin cx, Fin cy, Fin cz))"
    and "0 < s"
  shows "nv = map F3 (map (\<lambda>(x, y, z).
            (rv (rv (x - cx) / s), rv (rv (y - cy) / s), rv (rv (z - cz) / s))) ws)"
proof -
  define cs where "cs = map (\<lambda>(x, y, z). (rv (x - cx), rv (y - cy), rv (z - cz))) ws"
  from normalize32_finite(3) [OF n]
  have b: "\<forall>(a, b, c) \<in> set cs. \<bar>a\<bar> \<le> s \<and> \<bar>b\<bar> \<le> s \<and> \<bar>c\<bar> \<le> s"
    by (force simp: cs_def)
  from \<open>0 < s\<close> have s0: "s \<noteq> 0" by simp
  have "tdiv32 (map F3 cs) (Fin s) = map (\<lambda>(a, b, c). (rnd (a / s), rnd (b / s), rnd (c / s))) cs"
    by (rule tdiv32_F3 [OF s0])
  also have "\<dots> = map F3 (map (\<lambda>(a, b, c). (rv (a / s), rv (b / s), rv (c / s))) cs)"
    using b by (induction cs) (auto simp: rnd_quotient(1) [OF \<open>0 < s\<close>])
  also have "map (\<lambda>(a, b, c). (rv (a / s), rv (b / s), rv (c / s))) cs =
      map (\<lambda>(x, y, z). (rv (rv (x - cx) / s), rv (rv (y - cy) / s), rv (rv (z - cz) / s))) ws"
    by (simp add: cs_def split_def comp_def)
  finally show ?thesis using normalize32_finite(5) [OF n] by (simp add: cs_def)
qed

subsection \<open>Rounding errors of one entry\<close>






lemma round_trip_sum:
  fixes R :: real
  assumes "E4 \<le> ax / 2 ^ 24 + s / 2 ^ 24 + 1 / 2 ^ 149"
    and "PD \<le> 5 * s / 2 ^ 24 + 3 / 2 ^ 149"
    and "R \<le> E4 + PD" and "0 < s" and "0 \<le> ax"
  shows "R \<le> (s + ax) / 2 ^ 21 + 1 / 2 ^ 147"
proof -
  have "(s + ax) / 2 ^ 21 + 1 / 2 ^ 147 = 8 * s / 2 ^ 24 + 8 * ax / 2 ^ 24 + 4 / 2 ^ 149"
    by (simp add: field_simps)
  moreover have "R \<le> ax / 2 ^ 24 + 6 * s / 2 ^ 24 + 4 / 2 ^ 149"
    using assms(1,2,3) by linarith
  moreover have "ax / 2 ^ 24 \<le> 8 * ax / 2 ^ 24" "6 * s / 2 ^ 24 \<le> 8 * s / 2 ^ 24"
    using assms(4,5) by simp_all
  ultimately show ?thesis by linarith
qed

text \<open>Line 244 on one entry: \<open>r = rv (rv (u * s) + m)\<close> for the normalized entry \<open>u\<close>.\<close>

lemma round_trip_error:
  assumes "0 < s" and "\<bar>rv (x - m)\<bar> \<le> s"
  shows "\<bar>rv (rv (rv (rv (x - m) / s) * s) + m) - x\<bar> \<le> (s + \<bar>x\<bar>) / 2 ^ 21 + 1 / 2 ^ 147"
proof -
  define d where "d = x - m"
  define c where "c = rv d"
  define u where "u = rv (c / s)"
  define p where "p = rv (u * s)"
  define r where "r = rv (p + m)"
  define E1 where "E1 = \<bar>c - d\<bar>"
  define E2 where "E2 = \<bar>u * s - c\<bar>"
  define E3 where "E3 = \<bar>p - u * s\<bar>"
  define E4 where "E4 = \<bar>r - (p + m)\<bar>"
  define ax where "ax = \<bar>x\<bar>"
  define ad where "ad = \<bar>d\<bar>"
  have nn: "0 \<le> E1" "0 \<le> E2" "0 \<le> E3" "0 \<le> E4" "0 \<le> ax" "0 \<le> ad"
    by (simp_all add: E1_def E2_def E3_def E4_def ax_def ad_def)
  have cs: "\<bar>c\<bar> \<le> s" using assms(2) by (simp add: c_def d_def)
  have e1: "E1 \<le> ad / 2 ^ 24 + 1 / 2 ^ 150"
    unfolding c_def E1_def ad_def by (rule rv_error)
  have "ad \<le> \<bar>c\<bar> + E1" unfolding ad_def E1_def by linarith
  with cs have "ad \<le> s + E1" by linarith
  with e1 nn have dB: "ad \<le> 2 * s + 1 / 2 ^ 149" by simp
  with e1 nn have e1': "E1 \<le> s / 2 ^ 23 + 1 / 2 ^ 149" by simp
  have q1: "\<bar>c / s\<bar> \<le> 1" using assms(1) cs by simp
  have u1: "\<bar>u\<bar> \<le> 1" unfolding u_def using q1 by (rule rv_le_1)
  have "\<bar>u - c / s\<bar> \<le> \<bar>c / s\<bar> / 2 ^ 24 + 1 / 2 ^ 150"
    unfolding u_def by (rule rv_error)
  with q1 have "\<bar>u - c / s\<bar> \<le> 1 / 2 ^ 24 + 1 / 2 ^ 150" by simp
  then have "\<bar>u - c / s\<bar> * s \<le> (1 / 2 ^ 24 + 1 / 2 ^ 150) * s"
    using assms(1) by (intro mult_right_mono) simp_all
  moreover have "\<bar>u - c / s\<bar> * s = E2"
  proof -
    have "u * s - c = (u - c / s) * s" using assms(1) by (simp add: algebra_simps)
    then show ?thesis using assms(1) by (simp add: abs_mult E2_def)
  qed
  ultimately have "E2 \<le> (1 / 2 ^ 24 + 1 / 2 ^ 150) * s" by simp
  then have e2: "E2 \<le> s / 2 ^ 23" using assms(1) by simp
  have "\<bar>u * s\<bar> = \<bar>u\<bar> * s" using assms(1) by (simp add: abs_mult)
  also have "\<dots> \<le> 1 * s" using u1 assms(1) by (intro mult_right_mono) simp_all
  finally have us: "\<bar>u * s\<bar> \<le> s" by simp
  have "E3 \<le> \<bar>u * s\<bar> / 2 ^ 24 + 1 / 2 ^ 150"
    unfolding p_def E3_def by (rule rv_error)
  with us have e3: "E3 \<le> s / 2 ^ 24 + 1 / 2 ^ 150" by simp
  define PD where "PD = \<bar>p - d\<bar>"
  define PM where "PM = \<bar>p + m\<bar>"
  define R where "R = \<bar>r - x\<bar>"
  have nn': "0 \<le> PD" "0 \<le> PM" "0 \<le> R" by (simp_all add: PD_def PM_def R_def)
  have "PD \<le> E3 + E2 + E1" unfolding PD_def E1_def E2_def E3_def by linarith
  with e1' e2 e3 nn have pd: "PD \<le> 5 * s / 2 ^ 24 + 3 / 2 ^ 149" by simp
  have "PM \<le> ax + PD" unfolding PM_def PD_def ax_def d_def by linarith
  with pd have pm: "PM \<le> ax + 5 * s / 2 ^ 24 + 3 / 2 ^ 149" by linarith
  have "E4 \<le> PM / 2 ^ 24 + 1 / 2 ^ 150"
    unfolding r_def E4_def PM_def by (rule rv_error)
  with pm nn nn' have e4: "E4 \<le> ax / 2 ^ 24 + s / 2 ^ 24 + 1 / 2 ^ 149"
    using assms(1) by simp
  have "R \<le> E4 + PD" unfolding R_def E4_def PD_def d_def by linarith
  with e4 pd have "R \<le> (s + ax) / 2 ^ 21 + 1 / 2 ^ 147"
    using assms(1) nn(5) by (rule round_trip_sum)
  then have "\<bar>r - x\<bar> \<le> (s + \<bar>x\<bar>) / 2 ^ 21 + 1 / 2 ^ 147"
    by (simp only: R_def ax_def)
  then show ?thesis by (simp only: r_def p_def u_def c_def d_def ax_def)
qed

subsection \<open>Finite tensors\<close>




subsection \<open>The stored center lies on the grid\<close>

lemma fdiv32_grid: "fdiv32 a b = Fin r \<Longrightarrow> \<exists>k::int. r * 2 ^ 149 = of_int k"
proof (cases a; cases b)
  fix x y
  assume "fdiv32 a b = Fin r" "a = Fin x" "b = Fin y"
  then have "r = rv (x / y)" by (auto simp: rnd_Fin_iff split: if_splits)
  then show ?thesis using rv_grid by simp
next
  fix x
  assume "fdiv32 a b = Fin r" "a = Fin x" "b = PInf"
  then have "r * 2 ^ 149 = of_int 0" by simp
  then show ?thesis by blast
next
  fix x
  assume "fdiv32 a b = Fin r" "a = Fin x" "b = NInf"
  then have "r * 2 ^ 149 = of_int 0" by simp
  then show ?thesis by blast
qed (auto split: if_splits)

lemma mean32_grid:
  assumes "mean32 t = (Fin cx, Fin cy, Fin cz)"
  shows "\<exists>k::int. cx * 2 ^ 149 = of_int k"
    and "\<exists>k::int. cy * 2 ^ 149 = of_int k"
    and "\<exists>k::int. cz * 2 ^ 149 = of_int k"
  using assms by (auto simp: mean32_def Let_def dest: fdiv32_grid)

lemma grid_diff:
  assumes "\<exists>k::int. x * 2 ^ 149 = of_int k" and "\<exists>k::int. c * 2 ^ 149 = of_int k"
  shows "\<exists>k::int. (x - c) * 2 ^ 149 = of_int k"
proof -
  from assms obtain k l :: int where "x * 2 ^ 149 = of_int k" "c * 2 ^ 149 = of_int l" by blast
  then have "(x - c) * 2 ^ 149 = of_int (k - l)" by (simp add: algebra_simps)
  then show ?thesis by blast
qed

lemma scale_nonneg:
  assumes "normalize32 (map F3 ws) = Inr (nv, Fin s, (Fin cx, Fin cy, Fin cz))"
  shows "0 \<le> s"
  using normalize32_finite(4) [OF assms] by auto

text \<open>Two differing vertices of binary32 values give a positive scale.\<close>

lemma scale_positive:
  assumes f: "\<forall>(x, y, z) \<in> set ws. is_f32 x \<and> is_f32 y \<and> is_f32 z"
    and ab: "a \<in> set ws" "b \<in> set ws" "a \<noteq> b"
    and n: "normalize32 (map F3 ws) = Inr (nv, Fin s, (Fin cx, Fin cy, Fin cz))"
  shows "0 < s"
proof -
  note g = mean32_grid [OF normalize32_finite(2) [OF n]]
  note bd = normalize32_finite(3) [OF n]
  obtain ax ay az where a: "a = (ax, ay, az)" by (cases a)
  obtain bx "by" bz where b: "b = (bx, by, bz)" by (cases b)
  have nz: "\<bar>rv (x - c)\<bar> \<le> s \<Longrightarrow> is_f32 x \<Longrightarrow> \<exists>k::int. c * 2 ^ 149 = of_int k \<Longrightarrow> x \<noteq> c \<Longrightarrow> 0 < s"
    for x c
  proof -
    assume le: "\<bar>rv (x - c)\<bar> \<le> s" and x: "is_f32 x" and c: "\<exists>k::int. c * 2 ^ 149 = of_int k"
      and ne: "x \<noteq> c"
    from grid_diff [OF is_f32_grid [OF x] c] obtain k :: int where "(x - c) * 2 ^ 149 = of_int k"
      by blast
    moreover from ne have "x - c \<noteq> 0" by simp
    ultimately have "rv (x - c) \<noteq> 0" by (rule rv_nonzero)
    with le show "0 < s" by linarith
  qed
  from ab a b f bd have
    A: "is_f32 ax" "is_f32 ay" "is_f32 az" "\<bar>rv (ax - cx)\<bar> \<le> s" "\<bar>rv (ay - cy)\<bar> \<le> s" "\<bar>rv (az - cz)\<bar> \<le> s"
    and B: "is_f32 bx" "is_f32 by" "is_f32 bz" "\<bar>rv (bx - cx)\<bar> \<le> s" "\<bar>rv (by - cy)\<bar> \<le> s" "\<bar>rv (bz - cz)\<bar> \<le> s"
    by auto
  from ab(3) a b consider "ax \<noteq> cx" | "bx \<noteq> cx" | "ay \<noteq> cy" | "by \<noteq> cy" | "az \<noteq> cz" | "bz \<noteq> cz"
    by auto
  then show ?thesis
  proof cases
    case 1 with nz [OF A(4) A(1) g(1)] show ?thesis by simp
  next
    case 2 with nz [OF B(4) B(1) g(1)] show ?thesis by simp
  next
    case 3 with nz [OF A(5) A(2) g(2)] show ?thesis by simp
  next
    case 4 with nz [OF B(5) B(2) g(2)] show ?thesis by simp
  next
    case 5 with nz [OF A(6) A(3) g(3)] show ?thesis by simp
  next
    case 6 with nz [OF B(6) B(3) g(3)] show ?thesis by simp
  qed
qed

lemma rnd_0 [simp]: "rnd 0 = Fin 0"
  by (simp add: rnd_def Let_def)

lemma rnd_1 [simp]: "rnd 1 = Fin 1"
  by (simp add: rnd_def Let_def)

lemma is_f32_0 [simp]: "is_f32 0"
  by (simp add: is_f32_def)

lemma is_f32_1 [simp]: "is_f32 1"
  by (simp add: is_f32_def)

lemma rv_overflow: "rv (2 ^ 128) = 2 ^ 128"
  by (rule rv_eqI [where e = 254 and m = 8388608]) simp_all

lemma rnd_overflow:
  assumes "2 ^ 128 \<le> x"
  shows "rnd x = PInf"
proof -
  from rv_mono [OF assms] have "2 ^ 128 \<le> rv x" by (simp only: rv_overflow)
  moreover have "(0 :: real) < 2 ^ 128" by simp
  ultimately have "2 ^ 128 \<le> \<bar>rv x\<bar>" "0 < x" using assms by linarith+
  then show ?thesis by (simp add: rnd_def Let_def)
qed




lemma inverse_transform32_F3:
  "inverse_transform32 (map F3 us) (Fin s) (Fin cx, Fin cy, Fin cz) =
     map (\<lambda>(u, v, w). (fadd32 (rnd (u * s)) (Fin cx), fadd32 (rnd (v * s)) (Fin cy),
                        fadd32 (rnd (w * s)) (Fin cz))) us"
  by (induction us) (auto simp: inverse_transform32_def tadd32_def tmul32_def)

lemma fadd32_rnd_Fin:
  assumes "fadd32 (rnd q) (Fin m) = Fin r"
  shows "r = rv (rv q + m)"
proof -
  from rnd_cases [of q] assms have "rnd q = Fin (rv q)" by auto
  with assms have "rnd (rv q + m) = Fin r" by simp
  then show ?thesis by (simp add: rnd_Fin_iff)
qed

lemma map_eq_list_all2: "map f xs = map g ys \<Longrightarrow> list_all2 (\<lambda>x y. f x = g y) xs ys"
  by (induction xs arbitrary: ys) auto

lemma single_vertex:
  assumes "is_f32 x" "is_f32 y" "is_f32 z"
  shows "normalize32 [F3 (x, y, z)] = Inr ([(NaN, NaN, NaN)], Fin 0, F3 (x, y, z))"
proof -
  note r = rnd_is_f32 [OF assms(1)] rnd_is_f32 [OF assms(2)] rnd_is_f32 [OF assms(3)]
  have m: "mean32 [(Fin x, Fin y, Fin z)] = (Fin x, Fin y, Fin z)"
    by (simp add: mean32_def fsum32_def Let_def r)
  have t: "tsub32 [(Fin x, Fin y, Fin z)] (Fin x, Fin y, Fin z) = [(Fin 0, Fin 0, Fin 0)]"
    by (simp add: tsub32_def)
  have a: "max_abs32 [(Fin 0, Fin 0, Fin 0)] = Inr (Fin 0)"
    by (simp add: max_abs32_def tabs32_def)
  have d: "tdiv32 [(Fin 0, Fin 0, Fin 0)] (Fin 0) = [(NaN, NaN, NaN)]"
    by (simp add: tdiv32_def)
  show ?thesis
    by (simp add: normalize32_def Let_def m t a d)
qed

section \<open>The claims on the normalization\<close>


text \<open>
  C2, amended. When the normalization returns a finite center and a finite scale
  other than zero, and the stored inverse transform of the normalized vertices is
  finite, every coordinate \<open>x'\<close> it returns is within \<open>(s + \<bar>x\<bar>) / 2 ^ 21 + 1 / 2 ^ 147\<close>
  of the original coordinate \<open>x\<close>, where \<open>s\<close> is the scale.
\<close>

theorem inverse_transform32_close:
  assumes n: "normalize32 (map F3 ws) = Inr (nv, Fin s, (Fin cx, Fin cy, Fin cz))"
    and s0: "s \<noteq> 0"
    and i: "inverse_transform32 nv (Fin s) (Fin cx, Fin cy, Fin cz) = map F3 rs"
  shows "list_all2 (\<lambda>(x, y, z) (x', y', z').
           \<bar>x' - x\<bar> \<le> (s + \<bar>x\<bar>) / 2 ^ 21 + 1 / 2 ^ 147 \<and>
           \<bar>y' - y\<bar> \<le> (s + \<bar>y\<bar>) / 2 ^ 21 + 1 / 2 ^ 147 \<and>
           \<bar>z' - z\<bar> \<le> (s + \<bar>z\<bar>) / 2 ^ 21 + 1 / 2 ^ 147) ws rs"
proof -
  from scale_nonneg [OF n] s0 have s: "0 < s" by simp
  note bd = normalize32_finite(3) [OF n]
  let ?G = "\<lambda>(x, y, z). (fadd32 (rnd (rv (rv (x - cx) / s) * s)) (Fin cx),
                           fadd32 (rnd (rv (rv (y - cy) / s) * s)) (Fin cy),
                           fadd32 (rnd (rv (rv (z - cz) / s) * s)) (Fin cz))"
  have "map ?G ws = map F3 rs"
    using i unfolding normalize32_positive [OF n s] inverse_transform32_F3
    by (simp add: comp_def split_def)
  then have "list_all2 (\<lambda>w r. ?G w = F3 r) ws rs" by (rule map_eq_list_all2)
  then show ?thesis
  proof (rule list.rel_mono_strong)
    fix w r
    assume w: "w \<in> set ws" and e: "?G w = F3 r"
    obtain x y z where w': "w = (x, y, z)" by (cases w)
    obtain x' y' z' where r': "r = (x', y', z')" by (cases r)
    from e w' r' have "x' = rv (rv (rv (rv (x - cx) / s) * s) + cx)"
      "y' = rv (rv (rv (rv (y - cy) / s) * s) + cy)"
      "z' = rv (rv (rv (rv (z - cz) / s) * s) + cz)"
      by (auto dest: fadd32_rnd_Fin)
    moreover from bd w w' have "\<bar>rv (x - cx)\<bar> \<le> s" "\<bar>rv (y - cy)\<bar> \<le> s" "\<bar>rv (z - cz)\<bar> \<le> s"
      by auto
    ultimately show "(case w of (x, y, z) \<Rightarrow> \<lambda>(x', y', z').
           \<bar>x' - x\<bar> \<le> (s + \<bar>x\<bar>) / 2 ^ 21 + 1 / 2 ^ 147 \<and>
           \<bar>y' - y\<bar> \<le> (s + \<bar>y\<bar>) / 2 ^ 21 + 1 / 2 ^ 147 \<and>
           \<bar>z' - z\<bar> \<le> (s + \<bar>z\<bar>) / 2 ^ 21 + 1 / 2 ^ 147) r"
      using round_trip_error [OF s] by (simp add: w' r')
  qed
qed

text \<open>
  C10, amended. For vertices of finite binary32 coordinates of which two differ, when
  the stored center and scale are finite, the scale is strictly positive and every
  normalized entry is finite. On a single vertex of finite binary32 coordinates the
  scale is zero and the unguarded division makes every entry nan, without raising.
\<close>

theorem scale32_positive:
  "((\<forall>(x, y, z) \<in> set ws. is_f32 x \<and> is_f32 y \<and> is_f32 z) \<and> a \<in> set ws \<and> b \<in> set ws \<and> a \<noteq> b \<and>
    normalize32 (map F3 ws) = Inr (nv, Fin s, (Fin cx, Fin cy, Fin cz)) \<longrightarrow>
      0 < s \<and> (\<exists>us. nv = map F3 us)) \<and>
   (is_f32 x \<and> is_f32 y \<and> is_f32 z \<longrightarrow>
      normalize32 [F3 (x, y, z)] = Inr ([(NaN, NaN, NaN)], Fin 0, F3 (x, y, z)))"
proof (rule conjI; rule impI)
  assume h: "(\<forall>(x, y, z) \<in> set ws. is_f32 x \<and> is_f32 y \<and> is_f32 z) \<and> a \<in> set ws \<and> b \<in> set ws \<and> a \<noteq> b \<and>
    normalize32 (map F3 ws) = Inr (nv, Fin s, (Fin cx, Fin cy, Fin cz))"
  then have f: "\<forall>(x, y, z) \<in> set ws. is_f32 x \<and> is_f32 y \<and> is_f32 z"
    and ab: "a \<in> set ws" "b \<in> set ws" "a \<noteq> b"
    and n: "normalize32 (map F3 ws) = Inr (nv, Fin s, (Fin cx, Fin cy, Fin cz))"
    by blast+
  have s: "0 < s" by (rule scale_positive [OF f ab n])
  from normalize32_positive [OF n s] have "\<exists>us. nv = map F3 us" by blast
  with s show "0 < s \<and> (\<exists>us. nv = map F3 us)" by simp
next
  assume "is_f32 x \<and> is_f32 y \<and> is_f32 z"
  then have "is_f32 x" "is_f32 y" "is_f32 z" by simp_all
  then show "normalize32 [F3 (x, y, z)] = Inr ([(NaN, NaN, NaN)], Fin 0, F3 (x, y, z))"
    by (rule single_vertex)
qed

section \<open>The instances in binary32\<close>

text \<open>The roundings that occur in the instances, each with its exponent and integer.\<close>

lemma roundings:
  shows "rnd (- (1 / 25165824)) = Fin (- (11184811 / 281474976710656))"
    and "rnd (- (1 / 8388608)) = Fin (- (1 / 8388608))"
    and "rnd (1 / 8388608) = Fin (1 / 8388608)"
    and "rnd (1 / 3) = Fin (11184811 / 33554432)"
    and "rnd (- (11184811 / 33554432)) = Fin (- (11184811 / 33554432))"
    and "rnd (- (46912498914645 / 140737488355328)) = Fin (- (11184811 / 33554432))"
    and "rnd (8388607 / 16777216) = Fin (8388607 / 16777216)"
    and "rnd (1 / 2) = Fin (1 / 2)"
    and "rnd (- (11184811 / 22369620)) = Fin (- (8388609 / 16777216))"
    and "rnd (- (8388609 / 16777216)) = Fin (- (8388609 / 16777216))"
    and "rnd (- (7 / 13)) = Fin (- (4516943 / 8388608))"
    and "rnd (7 / 13) = Fin (4516943 / 8388608)"
    and "rnd (4516943 / 8388608) = Fin (4516943 / 8388608)"
    and "rnd (5592405 / 8388608) = Fin (5592405 / 8388608)"
    and "rnd (22369621 / 33554432) = Fin (5592405 / 8388608)"
    and "rnd (33554431 / 33554432) = Fin 1"
    and "rnd (- 1) = Fin (- 1)"
    and "rnd (6291457 / 6291456) = Fin (8388609 / 8388608)"
    and "rnd (4194305 / 4194304) = Fin (4194305 / 4194304)"
    and "rnd 2 = Fin 2"
    and "rnd (4194305 / 2097152) = Fin (4194305 / 2097152)"
    and "rnd 3 = Fin 3"
    and "rnd (- (12582913 / 4194304)) = Fin (- (12582913 / 4194304))"
    and "rnd (12582915 / 4194304) = Fin (12582915 / 4194304)"
    and "rnd (- (7 / 2)) = Fin (- (7 / 2))"
    and "rnd (7 / 2) = Fin (7 / 2)"
    and "rnd (- (58720259 / 16777216)) = Fin (- (14680065 / 4194304))"
    and "rnd (58720259 / 16777216) = Fin (14680065 / 4194304)"
    and "rnd 4 = Fin 4"
    and "rnd (16777217 / 4194304) = Fin 4"
    and "rnd (4194305 / 1048576) = Fin (4194305 / 1048576)"
    and "rnd 5 = Fin 5"
    and "rnd (20971525 / 4194304) = Fin (5242881 / 1048576)"
    and "rnd (- 6) = Fin (- 6)"
    and "rnd 6 = Fin 6"
    and "rnd (25165829 / 4194304) = Fin (6291457 / 1048576)"
    and "rnd (- (13 / 2)) = Fin (- (13 / 2))"
    and "rnd (13 / 2) = Fin (13 / 2)"
    and "rnd 7 = Fin 7"
    and "rnd 255211775190703847597530955573826158592 = Fin 255211775190703847597530955573826158592"
    and "rnd 510423550381407695195061911147652317184 = PInf"
proof -
  show "rnd (- (1 / 25165824)) = Fin (- (11184811 / 281474976710656))"
    by (rule rnd_FinI [where e = 101 and m = 11184811]) simp_all
  show "rnd (- (1 / 8388608)) = Fin (- (1 / 8388608))"
    by (rule rnd_FinI [where e = 103 and m = 8388608]) simp_all
  show "rnd (1 / 8388608) = Fin (1 / 8388608)"
    by (rule rnd_FinI [where e = 103 and m = 8388608]) simp_all
  show "rnd (1 / 3) = Fin (11184811 / 33554432)"
    by (rule rnd_FinI [where e = 124 and m = 11184811]) simp_all
  show "rnd (- (11184811 / 33554432)) = Fin (- (11184811 / 33554432))"
    by (rule rnd_FinI [where e = 124 and m = 11184811]) simp_all
  show "rnd (- (46912498914645 / 140737488355328)) = Fin (- (11184811 / 33554432))"
    by (rule rnd_FinI [where e = 124 and m = 11184811]) simp_all
  show "rnd (8388607 / 16777216) = Fin (8388607 / 16777216)"
    by (rule rnd_FinI [where e = 124 and m = 16777214]) simp_all
  show "rnd (1 / 2) = Fin (1 / 2)"
    by (rule rnd_FinI [where e = 125 and m = 8388608]) simp_all
  show "rnd (- (11184811 / 22369620)) = Fin (- (8388609 / 16777216))"
    by (rule rnd_FinI [where e = 125 and m = 8388609]) simp_all
  show "rnd (- (8388609 / 16777216)) = Fin (- (8388609 / 16777216))"
    by (rule rnd_FinI [where e = 125 and m = 8388609]) simp_all
  show "rnd (- (7 / 13)) = Fin (- (4516943 / 8388608))"
    by (rule rnd_FinI [where e = 125 and m = 9033886]) simp_all
  show "rnd (7 / 13) = Fin (4516943 / 8388608)"
    by (rule rnd_FinI [where e = 125 and m = 9033886]) simp_all
  show "rnd (4516943 / 8388608) = Fin (4516943 / 8388608)"
    by (rule rnd_FinI [where e = 125 and m = 9033886]) simp_all
  show "rnd (5592405 / 8388608) = Fin (5592405 / 8388608)"
    by (rule rnd_FinI [where e = 125 and m = 11184810]) simp_all
  show "rnd (22369621 / 33554432) = Fin (5592405 / 8388608)"
    by (rule rnd_FinI [where e = 125 and m = 11184810]) simp_all
  show "rnd (33554431 / 33554432) = Fin 1"
    by (rule rnd_FinI [where e = 125 and m = 16777216]) simp_all
  show "rnd (- 1) = Fin (- 1)"
    by (rule rnd_FinI [where e = 126 and m = 8388608]) simp_all
  show "rnd (6291457 / 6291456) = Fin (8388609 / 8388608)"
    by (rule rnd_FinI [where e = 126 and m = 8388609]) simp_all
  show "rnd (4194305 / 4194304) = Fin (4194305 / 4194304)"
    by (rule rnd_FinI [where e = 126 and m = 8388610]) simp_all
  show "rnd 2 = Fin 2"
    by (rule rnd_FinI [where e = 127 and m = 8388608]) simp_all
  show "rnd (4194305 / 2097152) = Fin (4194305 / 2097152)"
    by (rule rnd_FinI [where e = 127 and m = 8388610]) simp_all
  show "rnd 3 = Fin 3"
    by (rule rnd_FinI [where e = 127 and m = 12582912]) simp_all
  show "rnd (- (12582913 / 4194304)) = Fin (- (12582913 / 4194304))"
    by (rule rnd_FinI [where e = 127 and m = 12582913]) simp_all
  show "rnd (12582915 / 4194304) = Fin (12582915 / 4194304)"
    by (rule rnd_FinI [where e = 127 and m = 12582915]) simp_all
  show "rnd (- (7 / 2)) = Fin (- (7 / 2))"
    by (rule rnd_FinI [where e = 127 and m = 14680064]) simp_all
  show "rnd (7 / 2) = Fin (7 / 2)"
    by (rule rnd_FinI [where e = 127 and m = 14680064]) simp_all
  show "rnd (- (58720259 / 16777216)) = Fin (- (14680065 / 4194304))"
    by (rule rnd_FinI [where e = 127 and m = 14680065]) simp_all
  show "rnd (58720259 / 16777216) = Fin (14680065 / 4194304)"
    by (rule rnd_FinI [where e = 127 and m = 14680065]) simp_all
  show "rnd 4 = Fin 4"
    by (rule rnd_FinI [where e = 128 and m = 8388608]) simp_all
  show "rnd (16777217 / 4194304) = Fin 4"
    by (rule rnd_FinI [where e = 128 and m = 8388608]) simp_all
  show "rnd (4194305 / 1048576) = Fin (4194305 / 1048576)"
    by (rule rnd_FinI [where e = 128 and m = 8388610]) simp_all
  show "rnd 5 = Fin 5"
    by (rule rnd_FinI [where e = 128 and m = 10485760]) simp_all
  show "rnd (20971525 / 4194304) = Fin (5242881 / 1048576)"
    by (rule rnd_FinI [where e = 128 and m = 10485762]) simp_all
  show "rnd (- 6) = Fin (- 6)"
    by (rule rnd_FinI [where e = 128 and m = 12582912]) simp_all
  show "rnd 6 = Fin 6"
    by (rule rnd_FinI [where e = 128 and m = 12582912]) simp_all
  show "rnd (25165829 / 4194304) = Fin (6291457 / 1048576)"
    by (rule rnd_FinI [where e = 128 and m = 12582914]) simp_all
  show "rnd (- (13 / 2)) = Fin (- (13 / 2))"
    by (rule rnd_FinI [where e = 128 and m = 13631488]) simp_all
  show "rnd (13 / 2) = Fin (13 / 2)"
    by (rule rnd_FinI [where e = 128 and m = 13631488]) simp_all
  show "rnd 7 = Fin 7"
    by (rule rnd_FinI [where e = 128 and m = 14680064]) simp_all
  show "rnd 255211775190703847597530955573826158592 = Fin 255211775190703847597530955573826158592"
    by (rule rnd_FinI [where e = 253 and m = 12582912]) simp_all
  show "rnd 510423550381407695195061911147652317184 = PInf"
    by (rule rnd_overflow) simp
qed

lemma is_f32I:
  assumes "rnd x = Fin x"
  shows "is_f32 x"
proof -
  note c = iffD1 [OF rnd_Fin_iff assms]
  from c have r: "rv x = x" by (rule conjunct1 [THEN sym])
  from c have "\<bar>rv x\<bar> < 2 ^ 128" by (rule conjunct2)
  then have "\<bar>x\<bar> < 2 ^ 128" by (subst (asm) r)
  with r show ?thesis unfolding is_f32_def by (rule conjI)
qed

lemma is_f32_minus [simp]: "is_f32 (- x) \<longleftrightarrow> is_f32 x"
  by (simp add: is_f32_def rv_neg)

lemmas eval32 = normalize32_def inverse_transform32_def mean32_def fsum32_def tsub32_def
  tadd32_def tmul32_def fsub32_def max_abs32_def tabs32_def tdiv32_def Let_def



lemma two_normalize32:
  "normalize32 (map F3 two_verts) = Inr (map F3 two_normalized, Fin (13 / 2), F3 (0, 1 / 2, 1 / 2))"
  by (simp add: two_verts_def two_normalized_def eval32 roundings)

lemma two_inverse32:
  "inverse_transform32 (map F3 two_normalized) (Fin (13 / 2)) (F3 (0, 1 / 2, 1 / 2)) =
     map F3 two_restored"
  by (simp add: two_normalized_def two_restored_def eval32 roundings)

lemma huge_normalize32:
  "normalize32 (map F3 huge_verts) =
     Inr ([(NaN, Fin 0, Fin 0), (NaN, Fin 0, Fin 0), (NaN, Fin 0, Fin 0)], PInf, (PInf, Fin 0, Fin 0))"
  by (simp add: huge_verts_def eval32 roundings)

lemma close_normalize32:
  "normalize32 (map F3 close_verts) =
     Inr (map F3 (replicate 6 (1, 1, 1)), Fin (1 / 8388608),
          F3 (8388609 / 8388608, 8388609 / 8388608, 8388609 / 8388608))"
  by (simp add: close_verts_def eval32 roundings numeral_eq_Suc)

lemma nan_normalize32:
  "normalize32 [(NaN, Fin 0, Fin 0), F3 (1, 0, 0)] =
     Inr ([(NaN, NaN, NaN), (NaN, NaN, NaN)], NaN, (NaN, Fin 0, Fin 0))"
  by (simp add: eval32 roundings)


lemma two_f32: "\<forall>(x, y, z) \<in> set two_verts. is_f32 x \<and> is_f32 y \<and> is_f32 z"
  by (simp add: two_verts_def is_f32I roundings)



text \<open>
  C2 as stated fails. On \<open>two_verts\<close> the normalization is defined, with scale \<open>13 / 2\<close>,
  and the inverse transform of the normalized vertices returns \<open>- 12582913 / 4194304\<close>
  for the coordinate \<open>- 3\<close>: the original tensor is not reconstructed exactly.
\<close>

theorem inverse_transform32_counterexample:
  "normalize32 (map F3 two_verts) = Inr (map F3 two_normalized, Fin (13 / 2), F3 (0, 1 / 2, 1 / 2)) \<and>
   inverse_transform32 (map F3 two_normalized) (Fin (13 / 2)) (F3 (0, 1 / 2, 1 / 2)) =
     [F3 (0, - 6, 4), F3 (0, 7, - (12582913 / 4194304))] \<and>
   inverse_transform32 (map F3 two_normalized) (Fin (13 / 2)) (F3 (0, 1 / 2, 1 / 2)) \<noteq>
     map F3 two_verts"
  using two_normalize32 two_inverse32 by (simp add: two_verts_def two_restored_def)

text \<open>
  The amended C2 at \<open>two_verts\<close>, on the coordinate that is not reconstructed exactly.
\<close>

theorem inverse_transform32_close_witness:
  "normalize32 (map F3 two_verts) = Inr (map F3 two_normalized, Fin (13 / 2), F3 (0, 1 / 2, 1 / 2)) \<and>
   inverse_transform32 (map F3 two_normalized) (Fin (13 / 2)) (F3 (0, 1 / 2, 1 / 2)) =
     map F3 two_restored \<and>
   two_verts ! 1 = (0, 7, - 3) \<and> two_restored ! 1 = (0, 7, - (12582913 / 4194304)) \<and>
   \<bar>- (12582913 / 4194304) - (- 3)\<bar> \<le> (13 / 2 + \<bar>- 3 :: real\<bar>) / 2 ^ 21 + 1 / 2 ^ 147"
  using inverse_transform32_close [OF two_normalize32 [unfolded F3.simps] _
      two_inverse32 [unfolded F3.simps]] two_normalize32 two_inverse32
  by (simp add: two_verts_def two_restored_def)

text \<open>
  C10 as stated fails. The vertices \<open>huge_verts\<close> are finite binary32 values and two of
  them differ, but the column sum overflows: the stored scale is infinite and the
  division returns nan. With a nan coordinate in the input the scale is nan. And six
  equal vertices \<open>close_verts\<close> do not give a zero scale: the rounded mean differs from
  the vertices, the scale is \<open>1 / 8388608\<close> and every normalized entry is 1.
\<close>

theorem scale32_counterexample:
  "is_f32 (3 * 2 ^ 126) \<and>
   normalize32 (map F3 huge_verts) =
     Inr ([(NaN, Fin 0, Fin 0), (NaN, Fin 0, Fin 0), (NaN, Fin 0, Fin 0)], PInf, (PInf, Fin 0, Fin 0)) \<and>
   normalize32 [(NaN, Fin 0, Fin 0), F3 (1, 0, 0)] =
     Inr ([(NaN, NaN, NaN), (NaN, NaN, NaN)], NaN, (NaN, Fin 0, Fin 0)) \<and>
   is_f32 (1 + 1 / 2 ^ 22) \<and>
   normalize32 (map F3 close_verts) =
     Inr (map F3 (replicate 6 (1, 1, 1)), Fin (1 / 8388608),
          F3 (8388609 / 8388608, 8388609 / 8388608, 8388609 / 8388608))"
  using huge_normalize32 nan_normalize32 close_normalize32
  by (simp add: is_f32I roundings)

text \<open>
  The amended C10 at \<open>two_verts\<close> and at the single vertex \<open>(2, 3, 5)\<close>.
\<close>

theorem scale32_positive_witness:
  "normalize32 (map F3 two_verts) = Inr (map F3 two_normalized, Fin (13 / 2), F3 (0, 1 / 2, 1 / 2)) \<and>
   (0 :: real) < 13 / 2 \<and>
   normalize32 [F3 (2, 3, 5)] = Inr ([(NaN, NaN, NaN)], Fin 0, F3 (2, 3, 5))"
  using scale32_positive [of two_verts "(0, - 6, 4)" "(0, 7, - 3)" "map F3 two_normalized"
      "13 / 2" 0 "1 / 2" "1 / 2" 2 3 5] two_normalize32 two_f32
  by (simp add: two_verts_def is_f32I roundings)

section \<open>The loop and the run\<close>

lemma bindE_Inl [simp]: "bindE (Inl e) f = Inl e"
  and bindE_Inr [simp]: "bindE (Inr x) f = f x"
  by (simp_all add: bindE_def)

lemma bindE_eq_Inr: "bindE r f = Inr y \<longleftrightarrow> (\<exists>x. r = Inr x \<and> f x = Inr y)"
  by (cases r) simp_all

lemma for_range_0 [simp]: "for_range 0 body s = Inr s"
  by (simp add: for_range_def)

lemma for_range_Suc: "for_range (Suc n) body s = bindE (for_range n body s) (\<lambda>t. body t n)"
  by (simp add: for_range_def)

lemma for_range_invariant:
  assumes "for_range n body s0 = Inr s" and "P 0 s0"
    and "\<And>i t t'. P i t \<Longrightarrow> body t i = Inr t' \<Longrightarrow> P (Suc i) t'"
  shows "P n s"
  using assms(1)
proof (induction n arbitrary: s)
  case 0
  with assms(2) show ?case by simp
next
  case (Suc n)
  from Suc.prems obtain t where t: "for_range n body s0 = Inr t" and b: "body t n = Inr s"
    by (auto simp: for_range_Suc bindE_eq_Inr)
  from assms(3) [OF Suc.IH [OF t] b] show ?case .
qed

lemma iterationE:
  assumes "iteration L trg s i = Inr s'"
  obtains new sample_trg sample_src lc le ln ll g where
    "offset_verts (src_mesh s) (deform_verts s) = Inr new"
    "sample_points_from_meshes L (2 * i) trg 5000 = Inr sample_trg"
    "sample_points_from_meshes L (2 * i + 1) new 5000 = Inr sample_src"
    "chamfer_distance L sample_trg sample_src = Inr lc"
    "mesh_edge_loss L new = Inr le"
    "mesh_normal_consistency L new = Inr ln"
    "mesh_laplacian_smoothing L new = Inr ll"
    "backward L i trg (src_mesh s) (deform_verts s) = Inr g"
    "src_mesh s' = src_mesh s"
    "new_src_mesh s' = Some new"
    "chamfer_losses s' = chamfer_losses s @ [lc]"
    "edge_losses s' = edge_losses s @ [le]"
    "normal_losses s' = normal_losses s @ [ln]"
    "laplacian_losses s' = laplacian_losses s @ [ll]"
    "descriptions s' = descriptions s @ [total_loss lc le ln ll]"
  using assms
  unfolding iteration_def bindE_eq_Inr Let_def
  by (elim exE conjE) (auto simp: sgd_step_def Let_def split: if_splits)

lemma runE:
  assumes "run n L fs = (Inr s, fs')"
  obtains verts faces_idx nv scale center src m where
    "load_obj L trg_obj = Inr (verts, faces_idx)"
    "normalize verts = Inr (nv, scale, center)"
    "ico_sphere L 4 = Inr src"
    "for_range n (iteration L (Meshes nv faces_idx)) (init_state src) = Inr s"
    "new_src_mesh s = Some m"
    "fs' = save_obj fs final_obj (inverse_transform (verts_packed m) scale center) (faces_packed m)"
  using assms
  by (auto simp: run_def Let_def get_mesh_verts_faces_def split: sum.splits prod.splits option.splits)

lemma run_Inl_files:
  assumes "run n L fs = (Inl e, fs')"
  shows "fs' = fs"
  using assms
  by (auto simp: run_def Let_def get_mesh_verts_faces_def split: sum.splits prod.splits option.splits)

lemma offset_verts_zero:
  "offset_verts m (torch_full (length (verts_packed m)) 0) = Inr m"
proof -
  have z: "fadd x (Some 0) = x" for x by (cases x) simp_all
  have "map2 (vmap2 fadd) vs (replicate (length vs) (Some 0, Some 0, Some 0)) = vs" for vs
    by (induction vs) (auto simp: z)
  then show ?thesis
    by (simp add: offset_verts_def torch_full_def)
qed

lemma src_mesh_for_range:
  assumes "for_range n (iteration L trg) (init_state src) = Inr s"
  shows "src_mesh s = src"
proof (rule for_range_invariant [OF assms, where P = "\<lambda>i t. src_mesh t = src"])
  show "src_mesh (init_state src) = src" by (simp add: init_state_def)
next
  fix i t t'
  assume "src_mesh t = src" and it: "iteration L trg t i = Inr t'"
  from it have "src_mesh t' = src_mesh t" by (rule iterationE)
  with \<open>src_mesh t = src\<close> show "src_mesh t' = src" by simp
qed

lemma histories_for_range:
  assumes "for_range n (iteration L trg) (init_state src) = Inr s"
  shows "length (chamfer_losses s) = n \<and> length (edge_losses s) = n \<and>
         length (normal_losses s) = n \<and> length (laplacian_losses s) = n \<and>
         length (descriptions s) = n \<and>
         (\<forall>i<n. descriptions s ! i =
            total_loss (chamfer_losses s ! i) (edge_losses s ! i)
              (normal_losses s ! i) (laplacian_losses s ! i))"
proof (rule for_range_invariant [OF assms, where P = "\<lambda>n s.
         length (chamfer_losses s) = n \<and> length (edge_losses s) = n \<and>
         length (normal_losses s) = n \<and> length (laplacian_losses s) = n \<and>
         length (descriptions s) = n \<and>
         (\<forall>i<n. descriptions s ! i =
            total_loss (chamfer_losses s ! i) (edge_losses s ! i)
              (normal_losses s ! i) (laplacian_losses s ! i))"])
  show "length (chamfer_losses (init_state src)) = 0 \<and> length (edge_losses (init_state src)) = 0 \<and>
         length (normal_losses (init_state src)) = 0 \<and> length (laplacian_losses (init_state src)) = 0 \<and>
         length (descriptions (init_state src)) = 0 \<and>
         (\<forall>i<0. descriptions (init_state src) ! i =
            total_loss (chamfer_losses (init_state src) ! i) (edge_losses (init_state src) ! i)
              (normal_losses (init_state src) ! i) (laplacian_losses (init_state src) ! i))"
    by (simp add: init_state_def)
next
  fix k t t'
  assume inv: "length (chamfer_losses t) = k \<and> length (edge_losses t) = k \<and>
         length (normal_losses t) = k \<and> length (laplacian_losses t) = k \<and>
         length (descriptions t) = k \<and>
         (\<forall>i<k. descriptions t ! i =
            total_loss (chamfer_losses t ! i) (edge_losses t ! i)
              (normal_losses t ! i) (laplacian_losses t ! i))"
    and it: "iteration L trg t k = Inr t'"
  from it obtain lc le ln ll where
    c: "chamfer_losses t' = chamfer_losses t @ [lc]" and
    e: "edge_losses t' = edge_losses t @ [le]" and
    n: "normal_losses t' = normal_losses t @ [ln]" and
    l: "laplacian_losses t' = laplacian_losses t @ [ll]" and
    d: "descriptions t' = descriptions t @ [total_loss lc le ln ll]"
    by (rule iterationE)
  from inv show "length (chamfer_losses t') = Suc k \<and> length (edge_losses t') = Suc k \<and>
         length (normal_losses t') = Suc k \<and> length (laplacian_losses t') = Suc k \<and>
         length (descriptions t') = Suc k \<and>
         (\<forall>i<Suc k. descriptions t' ! i =
            total_loss (chamfer_losses t' ! i) (edge_losses t' ! i)
              (normal_losses t' ! i) (laplacian_losses t' ! i))"
    by (simp add: c e n l d nth_append less_Suc_eq)
qed

lemma offset_verts_Inr:
  assumes "offset_verts m offs = Inr new"
  shows "new = \<lparr>verts_packed = map2 (vmap2 fadd) (verts_packed m) offs,
                 faces_packed = faces_packed m\<rparr>"
  using assms by (auto simp: offset_verts_def split: if_splits)

lemma run_0: "fst (run 0 L fs) \<noteq> Inr s"
  by (auto simp: run_def Let_def init_state_def split: sum.splits prod.splits)

lemma run_SucE:
  assumes "run (Suc k) L fs = (Inr s, fs')"
  obtains verts faces_idx nv scale center src t where
    "load_obj L trg_obj = Inr (verts, faces_idx)"
    "normalize verts = Inr (nv, scale, center)"
    "ico_sphere L 4 = Inr src"
    "for_range k (iteration L (Meshes nv faces_idx)) (init_state src) = Inr t"
    "iteration L (Meshes nv faces_idx) t k = Inr s"
    "new_src_mesh s = Some \<lparr>verts_packed = map2 (vmap2 fadd) (verts_packed src) (deform_verts t),
                             faces_packed = faces_packed src\<rparr>"
    "fs' = fs(final_obj \<mapsto>
             (inverse_transform (map2 (vmap2 fadd) (verts_packed src) (deform_verts t)) scale center,
              faces_packed src))"
proof -
  from assms obtain verts faces_idx nv scale center src m where
    l: "load_obj L trg_obj = Inr (verts, faces_idx)" and
    n: "normalize verts = Inr (nv, scale, center)" and
    i: "ico_sphere L 4 = Inr src" and
    f: "for_range (Suc k) (iteration L (Meshes nv faces_idx)) (init_state src) = Inr s" and
    m: "new_src_mesh s = Some m" and
    w: "fs' = save_obj fs final_obj (inverse_transform (verts_packed m) scale center) (faces_packed m)"
    by (rule runE)
  from f obtain t where
    t: "for_range k (iteration L (Meshes nv faces_idx)) (init_state src) = Inr t" and
    it: "iteration L (Meshes nv faces_idx) t k = Inr s"
    by (auto simp: for_range_Suc bindE_eq_Inr)
  from it obtain new where
    o: "offset_verts (src_mesh t) (deform_verts t) = Inr new" and
    new: "new_src_mesh s = Some new"
    by (rule iterationE)
  have src: "src_mesh t = src" by (rule src_mesh_for_range [OF t])
  from offset_verts_Inr [OF o] new m src
  have m': "m = \<lparr>verts_packed = map2 (vmap2 fadd) (verts_packed src) (deform_verts t),
                  faces_packed = faces_packed src\<rparr>"
    by simp
  from w have w': "fs' = fs(final_obj \<mapsto>
             (inverse_transform (map2 (vmap2 fadd) (verts_packed src) (deform_verts t)) scale center,
              faces_packed src))"
    by (simp add: save_obj_def m')
  from m have m'': "new_src_mesh s = Some \<lparr>verts_packed = map2 (vmap2 fadd) (verts_packed src) (deform_verts t),
                             faces_packed = faces_packed src\<rparr>"
    by (simp add: m')
  from that [OF l n i t it m'' w'] show thesis .
qed

lemma for_range_cong:
  assumes "\<And>i t. i < n \<Longrightarrow> body1 t i = body2 t i"
  shows "for_range n body1 s = for_range n body2 s"
  using assms
proof (induction n)
  case 0
  show ?case by simp
next
  case (Suc n)
  then have "for_range n body1 s = for_range n body2 s" by simp
  moreover have "body1 t n = body2 t n" for t by (rule Suc.prems) simp
  ultimately show ?case by (simp add: for_range_Suc)
qed

lemma iteration_backward_upd:
  "i \<noteq> k \<Longrightarrow> iteration (L\<lparr>backward := (backward L)(k := b)\<rparr>) trg t i = iteration L trg t i"
  by (simp add: iteration_def)

lemma script_run: "script L fs = run (Suc (Niter - 1)) L fs"
  by (simp add: script_def Niter_def)

text \<open>
  C3. The offsets start as zeros, so offsetting the source mesh by them gives the
  source mesh itself, and the deformed mesh built by the iteration of index 0 is the
  source mesh.
\<close>

theorem zero_offset_baseline:
  "offset_verts (src_mesh (init_state src)) (deform_verts (init_state src)) = Inr src \<and>
   (iteration L trg (init_state src) 0 = Inr s' \<longrightarrow> new_src_mesh s' = Some src)"
proof -
  have z: "offset_verts (src_mesh (init_state src)) (deform_verts (init_state src)) = Inr src"
    by (simp add: init_state_def offset_verts_zero)
  have "new_src_mesh s' = Some src" if "iteration L trg (init_state src) 0 = Inr s'"
  proof -
    from that obtain new where
      "offset_verts (src_mesh (init_state src)) (deform_verts (init_state src)) = Inr new"
      "new_src_mesh s' = Some new"
      by (rule iterationE)
    with z show ?thesis by simp
  qed
  with z show ?thesis by blast
qed

text \<open>
  C4. When the script completes, one total loss was handed on in each of the \<open>Niter\<close>
  iterations, and the total loss of iteration \<open>i\<close> is the chamfer term times 1.0 plus
  the edge term times 1.0 plus the normal term times 0.01 plus the Laplacian term
  times 0.1, on the loss terms of that iteration: the same weights throughout.
\<close>

theorem total_loss_weighted_sum:
  assumes "script L fs = (Inr s, fs')"
  shows "length (descriptions s) = Niter \<and>
         (\<forall>i<Niter. descriptions s ! i =
            fadd (fadd (fadd (fmul (chamfer_losses s ! i) (Some 1.0))
                             (fmul (edge_losses s ! i) (Some 1.0)))
                       (fmul (normal_losses s ! i) (Some 0.01)))
                 (fmul (laplacian_losses s ! i) (Some 0.1)))"
proof -
  from assms have "run Niter L fs = (Inr s, fs')" by (simp add: script_def)
  then obtain nv faces_idx src where
    "for_range Niter (iteration L (Meshes nv faces_idx)) (init_state src) = Inr s"
    by (rule runE)
  from histories_for_range [OF this] show ?thesis
    by (simp add: total_loss_def w_chamfer_def w_edge_def w_normal_def w_laplacian_def)
qed

text \<open>
  C5. In the state reached after any number \<open>k\<close> of iterations the source mesh is the
  initial one; the next iteration leaves it so and builds the deformed mesh as a new
  mesh: the source vertices plus the current offsets, with the source faces.
\<close>

theorem source_mesh_fixed:
  assumes "for_range k (iteration L trg) (init_state src) = Inr s"
    and "iteration L trg s k = Inr s'"
  shows "src_mesh s = src \<and> src_mesh s' = src \<and>
         new_src_mesh s' =
           Some \<lparr>verts_packed = map2 (vmap2 fadd) (verts_packed src) (deform_verts s),
                 faces_packed = faces_packed src\<rparr>"
proof -
  have src: "src_mesh s = src" by (rule src_mesh_for_range [OF assms(1)])
  from assms(2) obtain new where
    o: "offset_verts (src_mesh s) (deform_verts s) = Inr new" and
    new: "new_src_mesh s' = Some new" and
    same: "src_mesh s' = src_mesh s"
    by (rule iterationE)
  from offset_verts_Inr [OF o] src new same show ?thesis by simp
qed

text \<open>
  C6. When the script completes, the files are the ones before the run with one
  more entry at the output path: the vertices of the last deformed mesh, multiplied
  by the stored scale and shifted by the stored center, with the faces of the source
  mesh.
\<close>

theorem saved_mesh_file:
  assumes "script L fs = (Inr s, fs')"
  shows "\<exists>verts faces_idx nv scale center src m.
           load_obj L trg_obj = Inr (verts, faces_idx) \<and>
           normalize verts = Inr (nv, scale, center) \<and>
           ico_sphere L 4 = Inr src \<and>
           new_src_mesh s = Some m \<and>
           fs' = fs(final_obj \<mapsto>
                    (inverse_transform (verts_packed m) scale center, faces_packed src))"
proof -
  from assms have "run (Suc (Niter - 1)) L fs = (Inr s, fs')" by (simp add: script_run)
  then show ?thesis
    by (rule run_SucE) fastforce
qed

text \<open>
  C7. When the script completes, each of the four loss histories has length
  \<open>Niter\<close>; every iteration appends exactly one entry at the end of each.
\<close>

theorem loss_histories_length:
  "(script L fs = (Inr s, fs') \<longrightarrow>
      length (chamfer_losses s) = Niter \<and> length (edge_losses s) = Niter \<and>
      length (normal_losses s) = Niter \<and> length (laplacian_losses s) = Niter) \<and>
   (iteration L trg t i = Inr t' \<longrightarrow>
      (\<exists>lc le ln ll.
         chamfer_losses t' = chamfer_losses t @ [lc] \<and>
         edge_losses t' = edge_losses t @ [le] \<and>
         normal_losses t' = normal_losses t @ [ln] \<and>
         laplacian_losses t' = laplacian_losses t @ [ll]))"
proof (rule conjI; rule impI)
  assume "script L fs = (Inr s, fs')"
  then have "run Niter L fs = (Inr s, fs')" by (simp add: script_def)
  then obtain nv faces_idx src where
    "for_range Niter (iteration L (Meshes nv faces_idx)) (init_state src) = Inr s"
    by (rule runE)
  from histories_for_range [OF this]
  show "length (chamfer_losses s) = Niter \<and> length (edge_losses s) = Niter \<and>
      length (normal_losses s) = Niter \<and> length (laplacian_losses s) = Niter"
    by simp
next
  assume "iteration L trg t i = Inr t'"
  then show "\<exists>lc le ln ll.
         chamfer_losses t' = chamfer_losses t @ [lc] \<and>
         edge_losses t' = edge_losses t @ [le] \<and>
         normal_losses t' = normal_losses t @ [ln] \<and>
         laplacian_losses t' = laplacian_losses t @ [ll]"
    by (rule iterationE) blast
qed

text \<open>
  C8. When loading the target fails, the script ends with that error, without a state
  and with the files as they were; and whatever error ends the script, no file is
  written.
\<close>

theorem load_failure_aborts:
  "(load_obj L trg_obj = Inl e \<longrightarrow> script L fs = (Inl e, fs)) \<and>
   (script L fs = (Inl e', fs') \<longrightarrow> fs' = fs)"
proof (rule conjI; rule impI)
  assume "load_obj L trg_obj = Inl e"
  then show "script L fs = (Inl e, fs)" by (simp add: script_def run_def)
next
  assume "script L fs = (Inl e', fs')"
  then have "run Niter L fs = (Inl e', fs')" by (simp add: script_def)
  then show "fs' = fs" by (rule run_Inl_files)
qed

text \<open>
  C9. When the script completes, the exported vertices are built from the offsets
  \<open>deform_verts t\<close> of the state \<open>t\<close> before the last iteration, the one of index
  \<open>Niter - 1\<close>, not from the offsets after its update. Replacing the gradient of the
  last iteration by any other one leaves the written files the same.
\<close>

theorem export_before_last_step:
  assumes "script L fs = (Inr s, fs')"
    and "script (L\<lparr>backward := (backward L)(Niter - 1 := b)\<rparr>) fs = (Inr s2, fs2)"
  shows "(\<exists>verts faces_idx nv scale center src t.
            load_obj L trg_obj = Inr (verts, faces_idx) \<and>
            normalize verts = Inr (nv, scale, center) \<and>
            ico_sphere L 4 = Inr src \<and>
            for_range (Niter - 1) (iteration L (Meshes nv faces_idx)) (init_state src) = Inr t \<and>
            iteration L (Meshes nv faces_idx) t (Niter - 1) = Inr s \<and>
            fs' = fs(final_obj \<mapsto>
                     (inverse_transform
                        (map2 (vmap2 fadd) (verts_packed src) (deform_verts t)) scale center,
                      faces_packed src))) \<and>
         fs2 = fs'"
proof -
  let ?k = "Niter - 1"
  let ?L = "L\<lparr>backward := (backward L)(?k := b)\<rparr>"
  from assms(1) have "run (Suc ?k) L fs = (Inr s, fs')" by (simp add: script_run)
  then obtain verts faces_idx nv scale center src t where
    l: "load_obj L trg_obj = Inr (verts, faces_idx)" and
    n: "normalize verts = Inr (nv, scale, center)" and
    i: "ico_sphere L 4 = Inr src" and
    t: "for_range ?k (iteration L (Meshes nv faces_idx)) (init_state src) = Inr t" and
    it: "iteration L (Meshes nv faces_idx) t ?k = Inr s" and
    w: "fs' = fs(final_obj \<mapsto>
             (inverse_transform (map2 (vmap2 fadd) (verts_packed src) (deform_verts t)) scale center,
              faces_packed src))"
    by (rule run_SucE)
  from assms(2) have "run (Suc ?k) ?L fs = (Inr s2, fs2)" by (simp add: script_run)
  then obtain verts2 faces_idx2 nv2 scale2 center2 src2 t2 where
    l2: "load_obj ?L trg_obj = Inr (verts2, faces_idx2)" and
    n2: "normalize verts2 = Inr (nv2, scale2, center2)" and
    i2: "ico_sphere ?L 4 = Inr src2" and
    t2: "for_range ?k (iteration ?L (Meshes nv2 faces_idx2)) (init_state src2) = Inr t2" and
    w2: "fs2 = fs(final_obj \<mapsto>
             (inverse_transform (map2 (vmap2 fadd) (verts_packed src2) (deform_verts t2)) scale2 center2,
              faces_packed src2))"
    by (rule run_SucE)
  from l l2 have v: "verts2 = verts" "faces_idx2 = faces_idx" by simp_all
  with n n2 have nn: "nv2 = nv" "scale2 = scale" "center2 = center" by simp_all
  from i i2 have ss: "src2 = src" by simp
  have "for_range ?k (iteration ?L (Meshes nv faces_idx)) (init_state src) =
        for_range ?k (iteration L (Meshes nv faces_idx)) (init_state src)"
    by (rule for_range_cong) (simp add: iteration_backward_upd)
  with t t2 have "t2 = t" by (simp add: v nn ss)
  with w w2 have "fs2 = fs'" by (simp add: nn ss)
  with l n i t it w show ?thesis by blast
qed

lemma example_normalize:
  "normalize [fin3 (0, 0, 0), fin3 (2, 4, - 6)] =
     Inr (verts_packed example_trg, Some 3, fin3 (1, 2, - 3))"
  by (simp add: normalize_def mean0_def fsum_def tsub_def max_abs_def tabs_def tdiv_def
      example_trg_def Meshes_def)

lemma example_iteration_0:
  "iteration example_lib trg (init_state example_src) 0 = Inr example_state1"
  by (simp add: iteration_def example_lib_def init_state_def example_src_def example_state1_def
      offset_verts_def torch_full_def total_loss_def sgd_step_def plot_period_def
      w_chamfer_def w_edge_def w_normal_def w_laplacian_def)

lemma example_iteration_1:
  "iteration example_lib trg example_state1 (Suc 0) = Inr example_state2"
  by (simp add: iteration_def example_lib_def example_src_def example_state1_def example_state2_def
      offset_verts_def total_loss_def sgd_step_def plot_period_def
      w_chamfer_def w_edge_def w_normal_def w_laplacian_def)

lemma example_for_range_1:
  "for_range (Suc 0) (iteration example_lib trg) (init_state example_src) = Inr example_state1"
  by (simp add: for_range_Suc example_iteration_0)

lemma quiet_init: "init_state example_src = quiet_state 0"
  by (simp add: init_state_def quiet_state_def example_src_def torch_full_def)

lemma quiet_iteration:
  "iteration quiet_lib trg (quiet_state n) n = Inr (quiet_state (Suc n))"
  by (simp add: iteration_def quiet_lib_def example_lib_def example_src_def quiet_state_def
      offset_verts_def total_loss_def sgd_step_def replicate_append_same Let_def
      w_chamfer_def w_edge_def w_normal_def w_laplacian_def)

lemma quiet_for_range:
  "for_range n (iteration quiet_lib trg) (init_state example_src) = Inr (quiet_state n)"
  by (induction n) (simp_all add: quiet_init for_range_Suc quiet_iteration)

lemma quiet_iteration_upd:
  "iteration (quiet_lib\<lparr>backward := (backward quiet_lib)(n := example_backward)\<rparr>) trg
     (quiet_state n) n =
   Inr ((quiet_state (Suc n))
          \<lparr>deform_verts := [fin3 (0, - 5, 0), fin3 (0, - 5, 0)],
           momentum_buffer := Some [fin3 (0, 5, 0), fin3 (0, 5, 0)]\<rparr>)"
  by (simp add: iteration_def quiet_lib_def example_lib_def example_src_def quiet_state_def
      example_backward_def
      offset_verts_def total_loss_def sgd_step_def replicate_append_same Let_def
      w_chamfer_def w_edge_def w_normal_def w_laplacian_def)

lemma quiet_for_range_upd:
  "for_range (Suc n) (iteration (quiet_lib\<lparr>backward := (backward quiet_lib)(n := example_backward)\<rparr>) trg)
     (init_state example_src) =
   Inr ((quiet_state (Suc n))
          \<lparr>deform_verts := [fin3 (0, - 5, 0), fin3 (0, - 5, 0)],
           momentum_buffer := Some [fin3 (0, 5, 0), fin3 (0, 5, 0)]\<rparr>)"
proof -
  have "for_range n (iteration (quiet_lib\<lparr>backward := (backward quiet_lib)(n := example_backward)\<rparr>) trg)
          (init_state example_src) =
        for_range n (iteration quiet_lib trg) (init_state example_src)"
    by (rule for_range_cong) (simp add: iteration_backward_upd)
  then show ?thesis
    by (simp only: for_range_Suc quiet_for_range bindE_Inr quiet_iteration_upd)
qed

lemma quiet_transform:
  "inverse_transform (verts_packed example_src) (Some 3) (fin3 (1, 2, - 3)) =
      [fin3 (4, 2, - 3), fin3 (1, 5, - 3)]"
  by (simp add: inverse_transform_def tmul_def tadd_def example_src_def)

lemma quiet_script:
  "script quiet_lib Map.empty = (Inr (quiet_state Niter), quiet_files)"
proof -
  have l: "load_obj quiet_lib trg_obj = Inr ([fin3 (0, 0, 0), fin3 (2, 4, - 6)], [(0, 1, 1)])"
    and i: "ico_sphere quiet_lib 4 = Inr example_src"
    by (simp_all add: quiet_lib_def example_lib_def)
  have m: "new_src_mesh (quiet_state Niter) = Some example_src"
    by (simp add: quiet_state_def Niter_def)
  have f: "faces_packed example_src = [(0, 1, 0)]" by (simp add: example_src_def)
  show ?thesis
    by (simp only: script_def run_def l i example_normalize quiet_for_range
        sum.case prod.case Let_def m option.case get_mesh_verts_faces_def simp_thms if_True
        quiet_transform f save_obj_def quiet_files_def)
qed

lemma quiet_script_upd:
  "script (quiet_lib\<lparr>backward := (backward quiet_lib)(Niter - 1 := example_backward)\<rparr>) Map.empty =
     (Inr quiet_state_b, quiet_files)"
proof -
  let ?L = "quiet_lib\<lparr>backward := (backward quiet_lib)(Niter - 1 := example_backward)\<rparr>"
  have l: "load_obj ?L trg_obj = Inr ([fin3 (0, 0, 0), fin3 (2, 4, - 6)], [(0, 1, 1)])"
    and i: "ico_sphere ?L 4 = Inr example_src"
    by (simp_all add: quiet_lib_def example_lib_def)
  have N: "Suc (Niter - 1) = Niter" by (simp add: Niter_def)
  have r: "for_range Niter (iteration ?L trg) (init_state example_src) = Inr quiet_state_b" for trg
    using quiet_for_range_upd [of "Niter - 1" trg] by (simp only: N quiet_state_b_def)
  have m: "new_src_mesh quiet_state_b = Some example_src"
    by (simp add: quiet_state_b_def quiet_state_def Niter_def)
  have f: "faces_packed example_src = [(0, 1, 0)]" by (simp add: example_src_def)
  show ?thesis
    by (simp only: script_def run_def l i example_normalize r
        sum.case prod.case Let_def m option.case get_mesh_verts_faces_def simp_thms if_True
        quiet_transform f save_obj_def quiet_files_def)
qed

text \<open>
  C3 on the small instance.
\<close>

theorem zero_offset_baseline_witness:
  "iteration example_lib example_trg (init_state example_src) 0 = Inr example_state1 \<and>
   offset_verts (src_mesh (init_state example_src)) (deform_verts (init_state example_src)) =
     Inr example_src \<and>
   new_src_mesh example_state1 = Some example_src"
  using zero_offset_baseline [where src = example_src and L = example_lib and trg = example_trg
      and s' = example_state1]
    example_iteration_0 [of example_trg]
  by simp

text \<open>
  C4 on the instance with gradient zero: the first and the last total loss, both
  3.53.
\<close>

theorem total_loss_weighted_sum_witness:
  "script quiet_lib Map.empty = (Inr (quiet_state Niter), quiet_files) \<and>
   length (descriptions (quiet_state Niter)) = Niter \<and>
   descriptions (quiet_state Niter) ! 0 =
     fadd (fadd (fadd (fmul (chamfer_losses (quiet_state Niter) ! 0) (Some 1.0))
                      (fmul (edge_losses (quiet_state Niter) ! 0) (Some 1.0)))
                (fmul (normal_losses (quiet_state Niter) ! 0) (Some 0.01)))
          (fmul (laplacian_losses (quiet_state Niter) ! 0) (Some 0.1)) \<and>
   descriptions (quiet_state Niter) ! 1999 =
     fadd (fadd (fadd (fmul (chamfer_losses (quiet_state Niter) ! 1999) (Some 1.0))
                      (fmul (edge_losses (quiet_state Niter) ! 1999) (Some 1.0)))
                (fmul (normal_losses (quiet_state Niter) ! 1999) (Some 0.01)))
          (fmul (laplacian_losses (quiet_state Niter) ! 1999) (Some 0.1)) \<and>
   descriptions (quiet_state Niter) ! 1999 = Some 3.53"
proof -
  have d: "descriptions (quiet_state Niter) ! 1999 = Some 3.53"
    by (simp add: quiet_state_def Niter_def)
  have "(0::nat) < Niter" and "(1999::nat) < Niter" by (simp_all add: Niter_def)
  with total_loss_weighted_sum [OF quiet_script] quiet_script d show ?thesis
    by blast
qed

text \<open>
  C5 on the small instance, at the second iteration.
\<close>

theorem source_mesh_fixed_witness:
  "for_range (Suc 0) (iteration example_lib example_trg) (init_state example_src) =
     Inr example_state1 \<and>
   iteration example_lib example_trg example_state1 (Suc 0) = Inr example_state2 \<and>
   src_mesh example_state1 = example_src \<and> src_mesh example_state2 = example_src \<and>
   new_src_mesh example_state2 =
     Some \<lparr>verts_packed =
             map2 (vmap2 fadd) (verts_packed example_src) (deform_verts example_state1),
           faces_packed = faces_packed example_src\<rparr>"
  using source_mesh_fixed [OF example_for_range_1 [of example_trg] example_iteration_1 [of example_trg]]
    example_for_range_1 [of example_trg] example_iteration_1 [of example_trg]
  by blast

text \<open>
  C6 on the instance with gradient zero.
\<close>

theorem saved_mesh_file_witness:
  "script quiet_lib Map.empty = (Inr (quiet_state Niter), quiet_files) \<and>
   (\<exists>verts faces_idx nv scale center src m.
      load_obj quiet_lib trg_obj = Inr (verts, faces_idx) \<and>
      normalize verts = Inr (nv, scale, center) \<and>
      ico_sphere quiet_lib 4 = Inr src \<and>
      new_src_mesh (quiet_state Niter) = Some m \<and>
      quiet_files =
        Map.empty(final_obj \<mapsto>
          (inverse_transform (verts_packed m) scale center, faces_packed src)))"
  using saved_mesh_file [OF quiet_script] quiet_script
  by blast

text \<open>
  C7 on the instance with gradient zero, and on the second iteration of the small
  instance.
\<close>

theorem loss_histories_length_witness:
  "script quiet_lib Map.empty = (Inr (quiet_state Niter), quiet_files) \<and>
   length (chamfer_losses (quiet_state Niter)) = Niter \<and>
   length (edge_losses (quiet_state Niter)) = Niter \<and>
   length (normal_losses (quiet_state Niter)) = Niter \<and>
   length (laplacian_losses (quiet_state Niter)) = Niter \<and>
   iteration example_lib example_trg example_state1 (Suc 0) = Inr example_state2 \<and>
   (\<exists>lc le ln ll.
      chamfer_losses example_state2 = chamfer_losses example_state1 @ [lc] \<and>
      edge_losses example_state2 = edge_losses example_state1 @ [le] \<and>
      normal_losses example_state2 = normal_losses example_state1 @ [ln] \<and>
      laplacian_losses example_state2 = laplacian_losses example_state1 @ [ll])"
  using loss_histories_length [where L = quiet_lib and fs = Map.empty
      and s = "quiet_state Niter" and fs' = quiet_files]
    loss_histories_length [where L = example_lib and trg = example_trg
      and t = example_state1 and i = "Suc 0" and t' = example_state2]
    quiet_script example_iteration_1 [of example_trg]
  by blast

text \<open>
  C8 on the small instance with a loader that fails.
\<close>

theorem load_failure_aborts_witness:
  "load_obj (example_lib\<lparr>load_obj := \<lambda>p. Inl IOError\<rparr>) trg_obj = Inl IOError \<and>
   script (example_lib\<lparr>load_obj := \<lambda>p. Inl IOError\<rparr>) quiet_files =
     (Inl IOError, quiet_files)"
proof -
  have h: "load_obj (example_lib\<lparr>load_obj := \<lambda>p. Inl IOError\<rparr>) trg_obj = Inl IOError"
    by simp
  from load_failure_aborts [where L = "example_lib\<lparr>load_obj := \<lambda>p. Inl IOError\<rparr>"
      and e = IOError and fs = quiet_files and e' = IOError and fs' = quiet_files] h
  show ?thesis by blast
qed

text \<open>
  C9 on the instance with gradient zero: another gradient in the last iteration
  changes the final offsets and not the written file.
\<close>

theorem export_before_last_step_witness:
  "script quiet_lib Map.empty = (Inr (quiet_state Niter), quiet_files) \<and>
   script (quiet_lib\<lparr>backward := (backward quiet_lib)(Niter - 1 := example_backward)\<rparr>)
     Map.empty = (Inr quiet_state_b, quiet_files) \<and>
   deform_verts quiet_state_b \<noteq> deform_verts (quiet_state Niter) \<and>
   (\<exists>verts faces_idx nv scale center src t.
      load_obj quiet_lib trg_obj = Inr (verts, faces_idx) \<and>
      normalize verts = Inr (nv, scale, center) \<and>
      ico_sphere quiet_lib 4 = Inr src \<and>
      for_range (Niter - 1) (iteration quiet_lib (Meshes nv faces_idx)) (init_state src) =
        Inr t \<and>
      iteration quiet_lib (Meshes nv faces_idx) t (Niter - 1) = Inr (quiet_state Niter) \<and>
      quiet_files =
        Map.empty(final_obj \<mapsto>
          (inverse_transform
             (map2 (vmap2 fadd) (verts_packed src) (deform_verts t)) scale center,
           faces_packed src)))"
proof -
  have d: "deform_verts quiet_state_b \<noteq> deform_verts (quiet_state Niter)"
    by (simp add: quiet_state_b_def quiet_state_def)
  from export_before_last_step [OF quiet_script quiet_script_upd]
    quiet_script quiet_script_upd d
  show ?thesis by blast
qed

end
